theory Spec2Isabelle
  imports Main "HOL-Library.Word"
begin

unbundle bit_operations_syntax

section \<open>Machine types and configuration\<close>

type_synonym u4 = "4 word"
type_synonym u8 = "8 word"
type_synonym u16 = "16 word"
type_synonym u32 = "32 word"
type_synonym u64 = "64 word"

text \<open>
  \<open>s32\<close> values are 32-bit words read with \<open>sint\<close>.
\<close>

type_synonym s32 = "32 word"

text \<open>
  The mutable globals of \<open>namespace cfg\<close> that the renderer reads.
\<close>

record cfg =
  FramebufferWidth :: u16
  FramebufferHeight :: u16

section \<open>Color\<close>

text \<open>
  \<open>struct Color\<close>: four 4-bit channels. The bit-field type keeps every channel in
  \<open>0..15\<close>.
\<close>

record Color =
  r :: u4
  g :: u4
  b :: u4
  a :: u4

text \<open>
  \<open>Color(u8 r, u8 g, u8 b, u8 a)\<close>: each \<open>u8\<close> argument initialises a 4-bit
  field, which keeps its low four bits.
\<close>

definition mkColor :: "u8 \<Rightarrow> u8 \<Rightarrow> u8 \<Rightarrow> u8 \<Rightarrow> Color" where
  "mkColor cr cg cb ca = \<lparr>r = ucast cr, g = ucast cg, b = ucast cb, a = ucast ca\<rparr>"

section \<open>Renderer: pixel primitives\<close>

text \<open>
  The surface behind \<open>currFb\<close> is a sequence of \<open>Color\<close> cells. An access at an
  index the surface does not have is undefined behaviour in the source and \<open>None\<close>
  here.

  \<open>x >= cfg::FramebufferWidth\<close> compares a \<open>u32\<close> with a \<open>u16\<close>: the \<open>u16\<close> is
  widened. The offset \<open>y * cfg::FramebufferWidth + x\<close> is computed in \<open>u32\<close>.
\<close>

definition fb_offset :: "cfg \<Rightarrow> u32 \<Rightarrow> u32 \<Rightarrow> u32" where
  "fb_offset c x y = y * ucast (FramebufferWidth c) + x"

definition out_of_bounds :: "cfg \<Rightarrow> u32 \<Rightarrow> u32 \<Rightarrow> bool" where
  "out_of_bounds c x y \<longleftrightarrow>
     x \<ge> ucast (FramebufferWidth c) \<or> y \<ge> ucast (FramebufferHeight c)"

definition setPixel :: "cfg \<Rightarrow> Color list \<Rightarrow> u32 \<Rightarrow> u32 \<Rightarrow> Color \<Rightarrow> Color list option" where
  "setPixel c fb x y color =
     (if out_of_bounds c x y then Some fb
      else let off = unat (fb_offset c x y)
           in if off < length fb then Some (fb[off := color]) else None)"

text \<open>
  One channel of the blend, \<open>((src.ch * inv_a) + (color.ch * color.a)) >> 4\<close>, in
  \<open>int\<close> as the source computes it after integer promotion; the result is passed
  as a \<open>u8\<close> constructor argument. \<open>u8 inv_a = 15 - color.a\<close> is the difference
  narrowed to \<open>u8\<close>.
\<close>

definition blend_channel :: "u4 \<Rightarrow> u8 \<Rightarrow> u4 \<Rightarrow> u4 \<Rightarrow> u8" where
  "blend_channel dst inv_a src src_a =
     word_of_int (drop_bit 4 (uint dst * uint inv_a + uint src * uint src_a))"

definition setPixelBlend :: "cfg \<Rightarrow> Color list \<Rightarrow> u32 \<Rightarrow> u32 \<Rightarrow> Color \<Rightarrow> Color list option" where
  "setPixelBlend c fb x y color =
     (if out_of_bounds c x y \<or> a color = 0 then Some fb
      else let off = unat (fb_offset c x y)
           in if off < length fb then
                let src = fb ! off;
                    inv_a = (15 - ucast (a color) :: u8)
                in Some (fb[off := mkColor
                     (blend_channel (r src) inv_a (r color) (a color))
                     (blend_channel (g src) inv_a (g color) (a color))
                     (blend_channel (b src) inv_a (b color) (a color))
                     (ucast (a src))])
              else None)"

text \<open>
  A surface of the configured size: \<open>FramebufferWidth * FramebufferHeight\<close> cells.
\<close>

definition surface_ok :: "cfg \<Rightarrow> Color list \<Rightarrow> bool" where
  "surface_ok c fb \<longleftrightarrow> length fb = unat (FramebufferWidth c) * unat (FramebufferHeight c)"

section \<open>Pointers\<close>

text \<open>
  A raw pointer is \<open>nullptr\<close> or the address of an object. Objects reached through
  non-owning or shared pointers live in a store, a map from addresses to values; an
  address with no object in the store is a dangling pointer, and using it is
  undefined behaviour in the source and \<open>None\<close> here.
\<close>

datatype ptr = Null | Addr nat

section \<open>Element: the base class\<close>

text \<open>
  The fields of \<open>elm::Element\<close>. The constructor sets all of them to zero, false
  and \<open>nullptr\<close>.
\<close>

record Element =
  m_x :: u16
  m_y :: u16
  m_width :: u16
  m_height :: u16
  m_focused :: bool
  m_isItem :: bool
  m_parent :: ptr

definition Element_new :: Element where
  "Element_new = \<lparr>m_x = 0, m_y = 0, m_width = 0, m_height = 0,
     m_focused = False, m_isItem = False, m_parent = Null\<rparr>"

definition setFocused :: "bool \<Rightarrow> Element \<Rightarrow> Element" where
  "setFocused focused e = e\<lparr>m_focused := focused\<rparr>"

definition isFocused :: "Element \<Rightarrow> bool" where
  "isFocused e = m_focused e"

section \<open>Signed 32-bit arithmetic\<close>

text \<open>
  \<open>int\<close> addition and subtraction. A result outside the 32-bit range is signed
  overflow, undefined behaviour in the source and \<open>None\<close> here.
\<close>

definition s32_add :: "s32 \<Rightarrow> s32 \<Rightarrow> s32 option" where
  "s32_add v w =
     (if - (2 ^ 31) \<le> sint v + sint w \<and> sint v + sint w < 2 ^ 31 then Some (v + w) else None)"

definition s32_sub :: "s32 \<Rightarrow> s32 \<Rightarrow> s32 option" where
  "s32_sub v w =
     (if - (2 ^ 31) \<le> sint v - sint w \<and> sint v - sint w < 2 ^ 31 then Some (v - w) else None)"

section \<open>The element tree\<close>

text \<open>A \<open>std::string\<close> is its bytes.\<close>

type_synonym std_string = "u8 list"

text \<open>\<open>Element::layout\<close>: occupy the given rectangle.\<close>

definition Element_layout :: "u16 \<Rightarrow> u16 \<Rightarrow> u16 \<Rightarrow> u16 \<Rightarrow> Element \<Rightarrow> Element" where
  "Element_layout parentX parentY parentWidth parentHeight e =
     e\<lparr>m_x := parentX, m_y := parentY, m_width := parentWidth, m_height := parentHeight\<rparr>"

text \<open>
  A parent owns its children (\<open>m_items\<close>, \<open>m_contentElement\<close>) and deletes them
  with itself, so the owning pointers are containment here and a null
  \<open>m_contentElement\<close> is \<open>None\<close>. \<open>Element\<close> is abstract; its leaves are classes
  outside this file. \<open>Item e ho\<close> is such a leaf with the base class's \<open>layout\<close>:
  with \<open>ho = None\<close> it keeps \<open>Element::getHeight\<close>, with \<open>ho = Some h\<close> it overrides
  the virtual \<open>getHeight\<close> to return the fixed \<open>h\<close>. \<open>List\<close> carries \<open>m_items\<close> and
  \<open>m_scrollOffset\<close>, \<open>OverlayFrame\<close> carries \<open>m_title\<close>, \<open>m_subtitle\<close> and
  \<open>m_contentElement\<close>.
\<close>

datatype Elem =
    Item Element "s32 option"
  | List Element "Elem list" s32
  | OverlayFrame Element std_string std_string "Elem option"

fun base :: "Elem \<Rightarrow> Element" where
  "base (Item e _) = e"
| "base (List e _ _) = e"
| "base (OverlayFrame e _ _ _) = e"

text \<open>\<open>getHeight\<close> returns \<open>s32\<close>: the \<open>u16\<close> field widened, or the leaf's override.\<close>

fun getHeight :: "Elem \<Rightarrow> s32" where
  "getHeight (Item e (Some h)) = h"
| "getHeight el = ucast (m_height (base el))"

definition getX :: "Elem \<Rightarrow> u16" where "getX el = m_x (base el)"

definition getY :: "Elem \<Rightarrow> u16" where "getY el = m_y (base el)"


text \<open>The constructors and the two setters that build a tree.\<close>

definition List_new :: Elem where
  "List_new = List Element_new [] 0"

definition addItem :: "Elem \<Rightarrow> Elem \<Rightarrow> Elem" where
  "addItem item el = (case el of List e items scroll \<Rightarrow> List e (items @ [item]) scroll | _ \<Rightarrow> el)"

definition OverlayFrame_new :: "std_string \<Rightarrow> std_string \<Rightarrow> Elem" where
  "OverlayFrame_new title subtitle =
     OverlayFrame (Element_new\<lparr>m_isItem := False\<rparr>) title subtitle None"

definition setContent :: "Elem option \<Rightarrow> Elem \<Rightarrow> Elem" where
  "setContent content el =
     (case el of OverlayFrame e title subtitle _ \<Rightarrow> OverlayFrame e title subtitle content | _ \<Rightarrow> el)"

text \<open>
  The virtual \<open>layout\<close>. \<open>List::layout\<close> starts at \<open>u16 currY = y - m_scrollOffset\<close>,
  an \<open>int\<close> subtraction narrowed to \<open>u16\<close>; each item is laid out with
  \<open>item->getHeight()\<close> narrowed to the \<open>u16\<close> parameter, and \<open>currY += item->getHeight()\<close>
  is an \<open>int\<close> addition narrowed to \<open>u16\<close>, reading the height after the item's
  layout. \<open>OverlayFrame::layout\<close> passes \<open>x + 20\<close>, \<open>y + 100\<close>, \<open>w - 40\<close>, \<open>h - 150\<close>,
  each narrowed to \<open>u16\<close>.
\<close>

fun layout :: "u16 \<Rightarrow> u16 \<Rightarrow> u16 \<Rightarrow> u16 \<Rightarrow> Elem \<Rightarrow> Elem option"
  and layout_items :: "u16 \<Rightarrow> u16 \<Rightarrow> u16 \<Rightarrow> Elem list \<Rightarrow> Elem list option" where
  "layout x y w h (Item e ho) = Some (Item (Element_layout x y w h e) ho)"
| "layout x y w h (List e items scroll) =
     (case s32_sub (ucast y) scroll of
        None \<Rightarrow> None
      | Some d \<Rightarrow>
          (case layout_items x (ucast d) w items of
             None \<Rightarrow> None
           | Some items' \<Rightarrow> Some (List (Element_layout x y w h e) items' scroll)))"
| "layout x y w h (OverlayFrame e title subtitle None) =
     Some (OverlayFrame (Element_layout x y w h e) title subtitle None)"
| "layout x y w h (OverlayFrame e title subtitle (Some content)) =
     (case layout (x + 20) (y + 100) (w - 40) (h - 150) content of
        None \<Rightarrow> None
      | Some content' \<Rightarrow>
          Some (OverlayFrame (Element_layout x y w h e) title subtitle (Some content')))"
| "layout_items x currY w [] = Some []"
| "layout_items x currY w (item # rest) =
     (case layout x currY w (ucast (getHeight item)) item of
        None \<Rightarrow> None
      | Some item' \<Rightarrow>
          (case s32_add (ucast currY) (getHeight item') of
             None \<Rightarrow> None
           | Some currY' \<Rightarrow>
               (case layout_items x (ucast currY') w rest of
                  None \<Rightarrow> None
                | Some rest' \<Rightarrow> Some (item' # rest'))))"

section \<open>Drawing the tree\<close>

definition ColorFrameBackground :: Color where
  "ColorFrameBackground = mkColor 0x0 0x0 0x0 0xD"

definition ColorTransparent :: Color where
  "ColorTransparent = mkColor 0x0 0x0 0x0 0x0"

definition ColorHighlight :: Color where
  "ColorHighlight = mkColor 0x0 0xF 0xD 0xF"

definition ColorText :: Color where
  "ColorText = mkColor 0xF 0xF 0xF 0xF"

definition ColorDescription :: Color where
  "ColorDescription = mkColor 0xA 0xA 0xA 0xF"

definition ListItemDefaultHeight :: u32 where
  "ListItemDefaultHeight = 70"

text \<open>
  \<open>draw\<close> acts on the surface only through the renderer, so a draw is the sequence
  of renderer calls it makes, in order, with their arguments.
\<close>

datatype render_call =
    DrawRect s32 s32 s32 s32 Color
  | DrawString std_string bool s32 s32 u32 Color

text \<open>
  The virtual \<open>draw\<close>. It is pure virtual in \<open>Element\<close>; what a leaf draws is the
  parameter \<open>itemDraw\<close>.
\<close>

fun draw :: "cfg \<Rightarrow> (Elem \<Rightarrow> render_call list) \<Rightarrow> Elem \<Rightarrow> render_call list" where
  "draw c itemDraw (Item e ho) = itemDraw (Item e ho)"
| "draw c itemDraw (List e items scroll) = concat (map (draw c itemDraw) items)"
| "draw c itemDraw (OverlayFrame e title subtitle content) =
     [DrawRect 0 0 (ucast (FramebufferWidth c)) (ucast (FramebufferHeight c)) ColorFrameBackground,
      DrawString title False 20 50 32 ColorText,
      DrawString subtitle False 20 85 15 ColorDescription]
     @ (case content of None \<Rightarrow> [] | Some el \<Rightarrow> draw c itemDraw el)"

section \<open>Gui: the screen and its focus\<close>

text \<open>
  A screen. \<open>m_root\<close> owns the tree, \<open>None\<close> while it is not built.
  \<open>m_focusedElement\<close> is a non-owning pointer to an element: the elements it can
  point to are in the store \<open>elements\<close>, and \<open>requestFocus\<close> changes their focus
  flags through their addresses.
\<close>

record Gui =
  m_root :: "Elem option"
  m_focusedElement :: ptr
  elements :: "nat \<Rightarrow> Element option"

definition Gui_new :: "(nat \<Rightarrow> Element option) \<Rightarrow> Gui" where
  "Gui_new els = \<lparr>m_root = None, m_focusedElement = Null, elements = els\<rparr>"

text \<open>
  \<open>updateGui\<close>: on the first call the tree that the \<open>createUI\<close> hook returns
  (\<open>None\<close> for \<open>nullptr\<close>) becomes the root and is laid out on the whole
  framebuffer. The \<open>update\<close> hook of the base class does nothing.
\<close>

definition updateGui :: "cfg \<Rightarrow> Elem option \<Rightarrow> Gui \<Rightarrow> Gui option" where
  "updateGui c createUI gui =
     (case m_root gui of
        Some _ \<Rightarrow> Some gui
      | None \<Rightarrow>
          (case createUI of
             None \<Rightarrow> Some gui
           | Some root \<Rightarrow>
               (case layout 0 0 (FramebufferWidth c) (FramebufferHeight c) root of
                  None \<Rightarrow> None
                | Some root' \<Rightarrow> Some (gui\<lparr>m_root := Some root'\<rparr>))))"

definition Gui_draw :: "cfg \<Rightarrow> (Elem \<Rightarrow> render_call list) \<Rightarrow> Gui \<Rightarrow> render_call list" where
  "Gui_draw c itemDraw gui = (case m_root gui of None \<Rightarrow> [] | Some root \<Rightarrow> draw c itemDraw root)"

text \<open>\<open>p->setFocused(v)\<close>, skipped for \<open>nullptr\<close> as the source's \<open>if (p)\<close> does.\<close>

definition setFocused_at :: "ptr \<Rightarrow> bool \<Rightarrow> (nat \<Rightarrow> Element option) \<Rightarrow> (nat \<Rightarrow> Element option) option" where
  "setFocused_at p v els =
     (case p of
        Null \<Rightarrow> Some els
      | Addr n \<Rightarrow> (case els n of
                    None \<Rightarrow> None
                  | Some e \<Rightarrow> Some (els(n := Some (setFocused v e)))))"

datatype FocusDirection = FocusNone | Up | Down | Left | Right

definition requestFocus :: "ptr \<Rightarrow> FocusDirection \<Rightarrow> Gui \<Rightarrow> Gui option" where
  "requestFocus element direction gui =
     (case setFocused_at (m_focusedElement gui) False (elements gui) of
        None \<Rightarrow> None
      | Some els1 \<Rightarrow>
          (case setFocused_at element True els1 of
             None \<Rightarrow> None
           | Some els2 \<Rightarrow> Some (gui\<lparr>m_focusedElement := element, elements := els2\<rparr>)))"

text \<open>A sequence of \<open>requestFocus\<close> calls, first to last.\<close>

fun requestFocus_seq :: "(ptr \<times> FocusDirection) list \<Rightarrow> Gui \<Rightarrow> Gui option" where
  "requestFocus_seq [] gui = Some gui"
| "requestFocus_seq ((element, direction) # rest) gui =
     (case requestFocus element direction gui of
        None \<Rightarrow> None
      | Some gui' \<Rightarrow> requestFocus_seq rest gui')"

text \<open>\<open>isFocused()\<close> of the element at an address.\<close>

definition isFocused_at :: "Gui \<Rightarrow> nat \<Rightarrow> bool" where
  "isFocused_at gui n = (case elements gui n of None \<Rightarrow> False | Some e \<Rightarrow> isFocused e)"

text \<open>
  Two predicates for the proofs about focus. \<open>ptr_live\<close>: a pointer is null or the
  address of an element in the store. \<open>focus_inv\<close>: among the addresses \<open>T\<close>, only
  the element \<open>m_focusedElement\<close> points to can have its flag set.
\<close>

definition focus_inv :: "nat set \<Rightarrow> Gui \<Rightarrow> bool" where
  "focus_inv T gui \<longleftrightarrow> (\<forall>n\<in>T. isFocused_at gui n \<longrightarrow> m_focusedElement gui = Addr n)"

definition ptr_live :: "(nat \<Rightarrow> Element option) \<Rightarrow> ptr \<Rightarrow> bool" where
  "ptr_live els p = (case p of Null \<Rightarrow> True | Addr n \<Rightarrow> els n \<noteq> None)"

section \<open>Overlay: the navigation stack\<close>

text \<open>
  \<open>m_guiStack\<close> is a \<open>std::stack<Gui*>\<close>, its top the head of the list. The screens
  it points to are heap objects: \<open>guis\<close> holds the live ones, and \<open>delete\<close> removes
  one. Deleting \<open>nullptr\<close> does nothing; deleting an address that is not live is
  undefined behaviour.
\<close>

record 'g Overlay =
  m_guiStack :: "ptr list"
  m_shouldClose :: bool
  guis :: "nat \<Rightarrow> 'g option"

definition delete_gui :: "ptr \<Rightarrow> (nat \<Rightarrow> 'g option) \<Rightarrow> (nat \<Rightarrow> 'g option) option" where
  "delete_gui p h =
     (case p of
        Null \<Rightarrow> Some h
      | Addr n \<Rightarrow> (case h n of None \<Rightarrow> None | Some _ \<Rightarrow> Some (h(n := None))))"

definition pushGui :: "ptr \<Rightarrow> 'g Overlay \<Rightarrow> 'g Overlay" where
  "pushGui gui ov = ov\<lparr>m_guiStack := gui # m_guiStack ov\<rparr>"

definition changeGui :: "ptr \<Rightarrow> 'g Overlay \<Rightarrow> 'g Overlay option" where
  "changeGui gui ov =
     (case m_guiStack ov of
        [] \<Rightarrow> Some (ov\<lparr>m_guiStack := [gui]\<rparr>)
      | tp # rest \<Rightarrow>
          (case delete_gui tp (guis ov) of
             None \<Rightarrow> None
           | Some h \<Rightarrow> Some (ov\<lparr>m_guiStack := gui # rest, guis := h\<rparr>)))"

definition getCurrentGui :: "'g Overlay \<Rightarrow> ptr" where
  "getCurrentGui ov = (case m_guiStack ov of [] \<Rightarrow> Null | tp # _ \<Rightarrow> tp)"

definition close :: "'g Overlay \<Rightarrow> 'g Overlay" where
  "close ov = ov\<lparr>m_shouldClose := True\<rparr>"

definition shouldClose :: "'g Overlay \<Rightarrow> bool" where
  "shouldClose ov = m_shouldClose ov"

text \<open>
  \<open>m_guiStack.pop()\<close>, the drop of the top entry that \<open>changeGui\<close> and the destructor
  use; on an empty stack it is undefined.
\<close>

definition guiStack_pop :: "'g Overlay \<Rightarrow> 'g Overlay option" where
  "guiStack_pop ov =
     (case m_guiStack ov of [] \<Rightarrow> None | tp # rest \<Rightarrow> Some (ov\<lparr>m_guiStack := rest\<rparr>))"

section \<open>Single-precision floating point\<close>

text \<open>
  \<open>Glyph::xAdvance\<close> is a \<open>float\<close>, and the text cursors add it to an integer. A
  finite binary32 value is \<open>Finite m e\<close>, standing for \<open>m * 2 ^ e\<close>; the sign of
  zero is not kept, since no operation used here tells the two zeros apart.
  \<open>f32_round m e\<close> is the binary32 value nearest to \<open>m * 2 ^ e\<close>, ties to the even
  significand: 24 significant bits, the last of them at exponent -149 at least,
  infinity from \<open>2 ^ 128\<close> on. \<open>nbits n\<close> is the number of binary digits of \<open>n\<close>.
\<close>

datatype f32 = Finite int int | Infinity bool | NaN

function nbits :: "int \<Rightarrow> int" where
  "nbits n = (if n \<le> 0 then 0 else 1 + nbits (n div 2))"
  by pat_completeness auto
termination
  by (relation "measure nat") auto

declare nbits.simps [simp del]

definition f32_round :: "int \<Rightarrow> int \<Rightarrow> f32" where
  "f32_round m e =
     (if m = 0 then Finite 0 0
      else let top = e + nbits \<bar>m\<bar> - 1;
               q = max (top - 23) (- 149);
               m' = (if q \<le> e then m
                     else let d = 2 ^ nat (q - e); fl = m div d; rm = m mod d
                          in if 2 * rm < d then fl
                             else if d < 2 * rm then fl + 1
                             else if even fl then fl else fl + 1);
               e' = (if q \<le> e then e else q)
           in if 128 < nbits \<bar>m'\<bar> + e' then Infinity (m < 0) else Finite m' e')"

definition f32_of_int :: "int \<Rightarrow> f32" where
  "f32_of_int n = f32_round n 0"

fun f32_add :: "f32 \<Rightarrow> f32 \<Rightarrow> f32" where
  "f32_add (Finite m1 e1) (Finite m2 e2) =
     (let e = min e1 e2 in f32_round (m1 * 2 ^ nat (e1 - e) + m2 * 2 ^ nat (e2 - e)) e)"
| "f32_add (Infinity s1) (Infinity s2) = (if s1 = s2 then Infinity s1 else NaN)"
| "f32_add (Infinity s1) (Finite _ _) = Infinity s1"
| "f32_add (Finite _ _) (Infinity s2) = Infinity s2"
| "f32_add _ _ = NaN"

fun f32_mul :: "f32 \<Rightarrow> f32 \<Rightarrow> f32" where
  "f32_mul (Finite m1 e1) (Finite m2 e2) = f32_round (m1 * m2) (e1 + e2)"
| "f32_mul (Infinity s1) (Infinity s2) = Infinity (s1 \<noteq> s2)"
| "f32_mul (Infinity s1) (Finite m2 _) = (if m2 = 0 then NaN else Infinity (s1 \<noteq> (m2 < 0)))"
| "f32_mul (Finite m1 _) (Infinity s2) = (if m1 = 0 then NaN else Infinity ((m1 < 0) \<noteq> s2))"
| "f32_mul _ _ = NaN"

fun f32_trunc :: "f32 \<Rightarrow> int option" where
  "f32_trunc (Finite m e) =
     Some (if 0 \<le> e then m * 2 ^ nat e else sgn m * (\<bar>m\<bar> div 2 ^ nat (- e)))"
| "f32_trunc _ = None"

text \<open>
  A conversion from \<open>float\<close> to an integer type truncates towards zero; it is
  undefined, \<open>None\<close> here, when the truncated value does not fit the type (or for
  an infinity or a NaN). \<open>v += x\<close> with an integer \<open>v\<close> and a \<open>float\<close> \<open>x\<close> converts
  \<open>v\<close> to \<open>float\<close>, adds, and converts the sum back.
\<close>

definition f32_to_u32 :: "f32 \<Rightarrow> u32 option" where
  "f32_to_u32 v =
     (case f32_trunc v of
        None \<Rightarrow> None
      | Some k \<Rightarrow> if 0 \<le> k \<and> k < 2 ^ 32 then Some (word_of_int k) else None)"

definition f32_to_s32 :: "f32 \<Rightarrow> s32 option" where
  "f32_to_s32 v =
     (case f32_trunc v of
        None \<Rightarrow> None
      | Some k \<Rightarrow> if - (2 ^ 31) \<le> k \<and> k < 2 ^ 31 then Some (word_of_int k) else None)"

definition u32_add_float :: "u32 \<Rightarrow> f32 \<Rightarrow> u32 option" where
  "u32_add_float v x = f32_to_u32 (f32_add (f32_of_int (uint v)) x)"

definition s32_add_float :: "s32 \<Rightarrow> f32 \<Rightarrow> s32 option" where
  "s32_add_float v x = f32_to_s32 (f32_add (f32_of_int (sint v)) x)"

section \<open>FontManager: the glyph cache\<close>

text \<open>\<open>glyphBmp\<close> is \<open>None\<close> for \<open>nullptr\<close>, else the bytes of the allocated bitmap.\<close>

record Glyph =
  glyphBmp :: "u8 list option"
  width :: u32
  height :: u32
  xOffset :: s32
  yOffset :: s32
  xAdvance :: f32
  currFontSize :: u32

text \<open>
  The font engine (\<open>stb_truetype.h\<close>, not part of this repository) applied to the
  loaded face \<open>s_stdFont\<close>: the five functions \<open>getOrCreateGlyph\<close> calls, as
  parameters. \<open>GetGlyphBitmapBox\<close> returns \<open>(x0, y0, x1, y1)\<close>, \<open>GetGlyphHMetrics\<close>
  the advance width, \<open>MakeGlyphBitmap\<close> the byte it writes at each offset of the
  output bitmap.
\<close>

record font =
  ScaleForPixelHeight :: "f32 \<Rightarrow> f32"
  FindGlyphIndex :: "s32 \<Rightarrow> s32"
  GetGlyphBitmapBox :: "s32 \<Rightarrow> f32 \<Rightarrow> f32 \<Rightarrow> s32 \<times> s32 \<times> s32 \<times> s32"
  GetGlyphHMetrics :: "s32 \<Rightarrow> s32"
  MakeGlyphBitmap :: "s32 \<Rightarrow> s32 \<Rightarrow> s32 \<Rightarrow> f32 \<Rightarrow> f32 \<Rightarrow> s32 \<Rightarrow> nat \<Rightarrow> u8"

text \<open>
  \<open>s_glyphCache\<close> maps a key to a \<open>shared_ptr<Glyph>\<close>: the address of a glyph
  object. The glyph objects are in \<open>glyphs\<close>, the address of one is its index, and
  \<open>make_shared\<close> allocates at the next free index.
\<close>

record FontManager =
  s_glyphCache :: "u64 \<Rightarrow> nat option"
  glyphs :: "Glyph list"

definition FontManager_init :: FontManager where
  "FontManager_init = \<lparr>s_glyphCache = (\<lambda>k. None), glyphs = []\<rparr>"

text \<open>\<open>(u64(character) << 32) | fontSize\<close>, with bit 63 set for monospace.\<close>

definition glyph_key :: "u32 \<Rightarrow> bool \<Rightarrow> u32 \<Rightarrow> u64" where
  "glyph_key character monospace fontSize =
     (let key = push_bit 32 (ucast character :: u64) OR ucast fontSize
      in if monospace then key OR push_bit 63 1 else key)"

text \<open>
  The miss branch up to the insertion: the new glyph. \<open>x1 - x0\<close> and \<open>y1 - y0\<close>
  are \<open>int\<close> subtractions stored in \<open>u32\<close> fields; the bitmap has
  \<open>width * height\<close> bytes, a \<open>u32\<close> product.
\<close>

definition make_glyph :: "font \<Rightarrow> u32 \<Rightarrow> u32 \<Rightarrow> Glyph option" where
  "make_glyph fnt character fontSize =
     (let scale = ScaleForPixelHeight fnt (f32_of_int (uint fontSize));
          glyphIndex = FindGlyphIndex fnt character
      in case GetGlyphBitmapBox fnt glyphIndex scale scale of
           (x0, y0, x1, y1) \<Rightarrow>
             (case s32_sub x1 x0 of
                None \<Rightarrow> None
              | Some wd \<Rightarrow>
                  (case s32_sub y1 y0 of
                     None \<Rightarrow> None
                   | Some ht \<Rightarrow>
                       let advance = GetGlyphHMetrics fnt glyphIndex
                       in Some \<lparr>glyphBmp =
                                  (if 0 < wd \<and> 0 < ht
                                   then Some (map (MakeGlyphBitmap fnt wd ht wd scale scale glyphIndex)
                                                [0..<unat (wd * ht)])
                                   else None),
                                width = wd, height = ht, xOffset = x0, yOffset = y0,
                                xAdvance = f32_mul scale (f32_of_int (sint advance)),
                                currFontSize = fontSize\<rparr>)))"

definition getOrCreateGlyph :: "font \<Rightarrow> u32 \<Rightarrow> bool \<Rightarrow> u32 \<Rightarrow> FontManager \<Rightarrow> (nat \<times> FontManager) option" where
  "getOrCreateGlyph fnt character monospace fontSize fm =
     (let key = glyph_key character monospace fontSize
      in case s_glyphCache fm key of
           Some p \<Rightarrow> Some (p, fm)
         | None \<Rightarrow>
             (case make_glyph fnt character fontSize of
                None \<Rightarrow> None
              | Some glyph \<Rightarrow>
                  Some (length (glyphs fm),
                        fm\<lparr>s_glyphCache := (s_glyphCache fm)(key := Some (length (glyphs fm))),
                           glyphs := glyphs fm @ [glyph]\<rparr>)))"

text \<open>Dereferencing a glyph pointer.\<close>

definition glyph_at :: "FontManager \<Rightarrow> nat \<Rightarrow> Glyph option" where
  "glyph_at fm p = (if p < length (glyphs fm) then Some (glyphs fm ! p) else None)"

section \<open>UTF-8 decoding\<close>

text \<open>
  The decoder reads \<open>in[0]\<close> to \<open>in[3]\<close> from a pointer into the string's
  zero-terminated buffer. \<open>inp\<close> is the rest of the string from that pointer on, and
  the byte after its last is the terminator 0. The checks \<open>(in[k] & 0xC0) != 0x80\<close>
  are evaluated left to right and stop at the first that holds, so no byte after
  the terminator is read. \<open>None\<close> is the return value -1.
\<close>

definition byte_at :: "std_string \<Rightarrow> nat \<Rightarrow> u8" where
  "byte_at bs k = (if k < length bs then bs ! k else 0)"

definition decode_utf8 :: "std_string \<Rightarrow> (u32 \<times> nat) option" where
  "decode_utf8 inp =
     (let code_unit = byte_at inp 0
      in if code_unit < 0x80 then Some (ucast code_unit, 1)
         else if code_unit < 0xC2 then None
         else if code_unit < 0xE0 then
           (if byte_at inp 1 AND 0xC0 \<noteq> 0x80 then None
            else Some (push_bit 6 (ucast (byte_at inp 0 AND 0x1F)) OR ucast (byte_at inp 1 AND 0x3F), 2))
         else if code_unit < 0xF0 then
           (if byte_at inp 1 AND 0xC0 \<noteq> 0x80 \<or> byte_at inp 2 AND 0xC0 \<noteq> 0x80 then None
            else Some (push_bit 12 (ucast (byte_at inp 0 AND 0x0F))
                       OR push_bit 6 (ucast (byte_at inp 1 AND 0x3F))
                       OR ucast (byte_at inp 2 AND 0x3F), 3))
         else if code_unit < 0xF5 then
           (if byte_at inp 1 AND 0xC0 \<noteq> 0x80 \<or> byte_at inp 2 AND 0xC0 \<noteq> 0x80
               \<or> byte_at inp 3 AND 0xC0 \<noteq> 0x80 then None
            else Some (push_bit 18 (ucast (byte_at inp 0 AND 0x07))
                       OR push_bit 12 (ucast (byte_at inp 1 AND 0x3F))
                       OR push_bit 6 (ucast (byte_at inp 2 AND 0x3F))
                       OR ucast (byte_at inp 3 AND 0x3F), 4))
         else None)"

lemma decode_utf8_len: "decode_utf8 inp = Some (cp, len) \<Longrightarrow> 0 < len"
  by (auto simp: decode_utf8_def Let_def split: if_splits)

section \<open>Renderer: text\<close>

text \<open>
  The loop of \<open>getTextDimensions\<close> on its variables \<open>width\<close>, \<open>height\<close>, \<open>maxWidth\<close>
  and the font manager's state; \<open>p\<close> is the rest of the text. It stops at a zero
  byte (\<open>while (*p)\<close>) or when the decoder fails (\<open>break\<close>).
\<close>

function gtd_loop :: "font \<Rightarrow> bool \<Rightarrow> u32 \<Rightarrow> std_string \<Rightarrow> u32 \<times> u32 \<times> u32 \<times> FontManager
    \<Rightarrow> (u32 \<times> u32 \<times> u32 \<times> FontManager) option" where
  "gtd_loop fnt monospace fontSize p (wd, ht, maxWidth, fm) =
     (if byte_at p 0 = 0 then Some (wd, ht, maxWidth, fm)
      else case decode_utf8 p of
             None \<Rightarrow> Some (wd, ht, maxWidth, fm)
           | Some (cp, len) \<Rightarrow>
               if cp = 10 then
                 gtd_loop fnt monospace fontSize (drop len p)
                   (0, ht + fontSize, (if maxWidth < wd then wd else maxWidth), fm)
               else
                 (case getOrCreateGlyph fnt cp monospace fontSize fm of
                    None \<Rightarrow> None
                  | Some (gp, fm') \<Rightarrow>
                      (case glyph_at fm' gp of
                         None \<Rightarrow> None
                       | Some glyph \<Rightarrow>
                           (case u32_add_float wd (xAdvance glyph) of
                              None \<Rightarrow> None
                            | Some wd' \<Rightarrow>
                                gtd_loop fnt monospace fontSize (drop len p)
                                  (wd', ht, maxWidth, fm')))))"
  by pat_completeness auto
termination
  by (relation "measure (\<lambda>(fnt, monospace, fontSize, p, st). length p)")
     (auto simp: byte_at_def dest: decode_utf8_len split: if_splits)

declare gtd_loop.simps [simp del]

definition getTextDimensions :: "font \<Rightarrow> std_string \<Rightarrow> bool \<Rightarrow> u32 \<Rightarrow> FontManager
    \<Rightarrow> ((u32 \<times> u32) \<times> FontManager) option" where
  "getTextDimensions fnt text monospace fontSize fm =
     (case gtd_loop fnt monospace fontSize text (0, fontSize, 0, fm) of
        None \<Rightarrow> None
      | Some (wd, ht, maxWidth, fm') \<Rightarrow>
          Some (((if maxWidth < wd then wd else maxWidth), ht), fm'))"

text \<open>A loop body that can be undefined, run over a range.\<close>

fun fold_opt :: "('x \<Rightarrow> 's \<Rightarrow> 's option) \<Rightarrow> 'x list \<Rightarrow> 's \<Rightarrow> 's option" where
  "fold_opt f [] s = Some s"
| "fold_opt f (x # xs) s = (case f x s of None \<Rightarrow> None | Some s' \<Rightarrow> fold_opt f xs s')"

text \<open>
  \<open>drawRect\<close>: the rectangle clipped to the framebuffer, every pixel blended.
\<close>

definition drawRect :: "cfg \<Rightarrow> s32 \<Rightarrow> s32 \<Rightarrow> s32 \<Rightarrow> s32 \<Rightarrow> Color \<Rightarrow> Color list \<Rightarrow> Color list option" where
  "drawRect c x y w h color fb =
     (case s32_add x w of
        None \<Rightarrow> None
      | Some xw \<Rightarrow>
          (case s32_add y h of
             None \<Rightarrow> None
           | Some yh \<Rightarrow>
               let x_start = max 0 (sint x);
                   y_start = max 0 (sint y);
                   x_end = min (uint (FramebufferWidth c)) (sint xw);
                   y_end = min (uint (FramebufferHeight c)) (sint yh)
               in fold_opt
                    (\<lambda>yi. fold_opt (\<lambda>xi fb'. setPixelBlend c fb' (word_of_int xi) (word_of_int yi) color)
                            [x_start..x_end - 1])
                    [y_start..y_end - 1] fb))"

text \<open>
  One pixel of a glyph bitmap: coverage \<open>alpha\<close> at \<open>glyphBmp[gy * width + gx]\<close>;
  when it is not zero the colour is blended with its alpha replaced by
  \<open>(u8(color.a) * (alpha >> 4)) >> 4\<close>, at coordinates computed in \<open>u32\<close>.
\<close>

definition blit_pixel :: "cfg \<Rightarrow> Glyph \<Rightarrow> u8 list \<Rightarrow> s32 \<Rightarrow> s32 \<Rightarrow> u32 \<Rightarrow> Color \<Rightarrow> u32 \<Rightarrow> u32
    \<Rightarrow> Color list \<Rightarrow> Color list option" where
  "blit_pixel c glyph bmp currX y fontSize color gy gx fb =
     (let idx = unat (gy * width glyph + gx)
      in if idx < length bmp then
           (let alpha = bmp ! idx
            in if 0 < alpha then
                 setPixelBlend c fb (currX + gx + xOffset glyph) (y + gy + yOffset glyph + fontSize)
                   (color\<lparr>a := word_of_int
                       (drop_bit 4 (uint (ucast (a color) :: u8) * uint (drop_bit 4 alpha)))\<rparr>)
               else Some fb)
         else None)"

definition drawGlyph :: "cfg \<Rightarrow> Glyph \<Rightarrow> s32 \<Rightarrow> s32 \<Rightarrow> u32 \<Rightarrow> Color \<Rightarrow> Color list \<Rightarrow> Color list option" where
  "drawGlyph c glyph currX y fontSize color fb =
     (case glyphBmp glyph of
        None \<Rightarrow> Some fb
      | Some bmp \<Rightarrow>
          fold_opt
            (\<lambda>gy. fold_opt (\<lambda>gx. blit_pixel c glyph bmp currX y fontSize color (of_nat gy) (of_nat gx))
                    [0..<unat (width glyph)])
            [0..<unat (height glyph)] fb)"

text \<open>
  The loop of \<open>drawString\<close> on \<open>currX\<close>, \<open>y\<close>, the surface and the font manager's
  state. A newline sets \<open>currX = x\<close> and \<open>y += fontSize\<close>; a glyph is drawn when it
  has a bitmap, then \<open>currX += glyph->xAdvance\<close>.
\<close>

function drawString_loop :: "cfg \<Rightarrow> font \<Rightarrow> bool \<Rightarrow> s32 \<Rightarrow> u32 \<Rightarrow> Color \<Rightarrow> std_string
    \<Rightarrow> s32 \<times> s32 \<times> Color list \<times> FontManager \<Rightarrow> (s32 \<times> s32 \<times> Color list \<times> FontManager) option" where
  "drawString_loop c fnt monospace x fontSize color p (currX, y, fb, fm) =
     (if byte_at p 0 = 0 then Some (currX, y, fb, fm)
      else case decode_utf8 p of
             None \<Rightarrow> Some (currX, y, fb, fm)
           | Some (cp, len) \<Rightarrow>
               if cp = 10 then
                 drawString_loop c fnt monospace x fontSize color (drop len p) (x, y + fontSize, fb, fm)
               else
                 (case getOrCreateGlyph fnt cp monospace fontSize fm of
                    None \<Rightarrow> None
                  | Some (gp, fm') \<Rightarrow>
                      (case glyph_at fm' gp of
                         None \<Rightarrow> None
                       | Some glyph \<Rightarrow>
                           (case drawGlyph c glyph currX y fontSize color fb of
                              None \<Rightarrow> None
                            | Some fb' \<Rightarrow>
                                (case s32_add_float currX (xAdvance glyph) of
                                   None \<Rightarrow> None
                                 | Some currX' \<Rightarrow>
                                     drawString_loop c fnt monospace x fontSize color (drop len p)
                                       (currX', y, fb', fm'))))))"
  by pat_completeness auto
termination
  by (relation "measure (\<lambda>(c, fnt, monospace, x, fontSize, color, p, st). length p)")
     (auto simp: byte_at_def dest: decode_utf8_len split: if_splits)

declare drawString_loop.simps [simp del]

definition drawString :: "cfg \<Rightarrow> font \<Rightarrow> std_string \<Rightarrow> bool \<Rightarrow> s32 \<Rightarrow> s32 \<Rightarrow> u32 \<Rightarrow> Color
    \<Rightarrow> Color list \<times> FontManager \<Rightarrow> (Color list \<times> FontManager) option" where
  "drawString c fnt text monospace x y fontSize color st =
     (case drawString_loop c fnt monospace x fontSize color text (x, y, fst st, snd st) of
        None \<Rightarrow> None
      | Some (currX, y', fb, fm) \<Rightarrow> Some (fb, fm))"

text \<open>
  The effect of one renderer call on the surface and the font manager, so that the
  effect of a draw is its calls run in order.
\<close>

fun render :: "cfg \<Rightarrow> font \<Rightarrow> render_call \<Rightarrow> Color list \<times> FontManager
    \<Rightarrow> (Color list \<times> FontManager) option" where
  "render c fnt (DrawRect x y w h color) st =
     (case drawRect c x y w h color (fst st) of
        None \<Rightarrow> None
      | Some fb \<Rightarrow> Some (fb, snd st))"
| "render c fnt (DrawString str monospace x y fontSize color) st =
     drawString c fnt str monospace x y fontSize color st"

definition render_all :: "cfg \<Rightarrow> font \<Rightarrow> render_call list \<Rightarrow> Color list \<times> FontManager
    \<Rightarrow> (Color list \<times> FontManager) option" where
  "render_all c fnt calls st = fold_opt (render c fnt) calls st"

section \<open>Consistent cache states and two test fonts\<close>

text \<open>
  The states the cache can be in: every cached pointer is the address of a glyph
  object, and no two keys share one. The empty cache is such a state and
  \<open>getOrCreateGlyph\<close> keeps the property.
\<close>

definition cache_ok :: "FontManager \<Rightarrow> bool" where
  "cache_ok fm \<longleftrightarrow>
     (\<forall>k p. s_glyphCache fm k = Some p \<longrightarrow> p < length (glyphs fm)) \<and>
     (\<forall>k k' p. s_glyphCache fm k = Some p \<and> s_glyphCache fm k' = Some p \<longrightarrow> k = k')"

text \<open>
  A font for concrete runs: the scale for pixel height \<open>h\<close> is \<open>h / 2048\<close>, every
  glyph has an empty bitmap box and the advance width 1024, so at font size 1 every
  glyph advances the cursor by half a pixel and draws nothing (as a space does).
\<close>

definition demo_font :: font where
  "demo_font = \<lparr>ScaleForPixelHeight = (\<lambda>hgt. f32_mul hgt (Finite 1 (- 11))),
     FindGlyphIndex = (\<lambda>cp. cp),
     GetGlyphBitmapBox = (\<lambda>gi sx sy. (0, 0, 0, 0)),
     GetGlyphHMetrics = (\<lambda>gi. 1024),
     MakeGlyphBitmap = (\<lambda>ow oh stride sx sy gi k. 0)\<rparr>"

text \<open>
  A second font: a face whose ascent minus descent is 65535 units, so that the scale
  for pixel height \<open>h\<close> is \<open>h\<close> times the binary32 value nearest to \<open>1 / 65535\<close>, and
  whose glyphs have an empty bitmap box and the advance width 65534. At font size 1
  a glyph advances by \<open>16776960 / 2 ^ 24\<close>, just under one pixel.
\<close>

definition wide_font :: font where
  "wide_font = \<lparr>ScaleForPixelHeight = (\<lambda>hgt. f32_mul hgt (Finite 8388736 (- 39))),
     FindGlyphIndex = (\<lambda>cp. cp),
     GetGlyphBitmapBox = (\<lambda>gi sx sy. (0, 0, 0, 0)),
     GetGlyphHMetrics = (\<lambda>gi. 65534),
     MakeGlyphBitmap = (\<lambda>ow oh stride sx sy gi k. 0)\<rparr>"

section \<open>The text measurement in the specification's terms\<close>

text \<open>
  The code points of a text: what the two text loops decode, up to the first zero
  byte or the first invalid sequence.
\<close>

function decode_all :: "std_string \<Rightarrow> u32 list" where
  "decode_all p =
     (if byte_at p 0 = 0 then []
      else case decode_utf8 p of
             None \<Rightarrow> []
           | Some (cp, len) \<Rightarrow> cp # decode_all (drop len p))"
  by pat_completeness auto
termination
  by (relation "measure length")
     (auto simp: byte_at_def dest: decode_utf8_len split: if_splits)

declare decode_all.simps [simp del]

text \<open>
  The glyph a lookup of a code point yields in a given state of the cache, and its
  advance. Both are \<open>None\<close> when creating the glyph is undefined.
\<close>

definition glyph_for :: "font \<Rightarrow> FontManager \<Rightarrow> bool \<Rightarrow> u32 \<Rightarrow> u32 \<Rightarrow> Glyph option" where
  "glyph_for fnt fm monospace fontSize cp =
     (case getOrCreateGlyph fnt cp monospace fontSize fm of
        None \<Rightarrow> None
      | Some (gp, fm') \<Rightarrow> glyph_at fm' gp)"

definition advance_of :: "font \<Rightarrow> FontManager \<Rightarrow> bool \<Rightarrow> u32 \<Rightarrow> u32 \<Rightarrow> f32 option" where
  "advance_of fnt fm monospace fontSize cp = map_option xAdvance (glyph_for fnt fm monospace fontSize cp)"

text \<open>
  The specification's measurement: the lines are the code points between newlines;
  a line's width starts at 0 and each glyph replaces it by the truncated sum of
  the width and the glyph's advance; the text's width is the largest line width,
  its height \<open>size + size * (number of newlines)\<close> in \<open>u32\<close>.
\<close>

definition add_advance :: "(u32 \<Rightarrow> f32 option) \<Rightarrow> u32 \<Rightarrow> u32 \<Rightarrow> u32 option" where
  "add_advance adv cp wd = (case adv cp of None \<Rightarrow> None | Some x \<Rightarrow> u32_add_float wd x)"

definition line_width :: "(u32 \<Rightarrow> f32 option) \<Rightarrow> u32 list \<Rightarrow> u32 option" where
  "line_width adv line = fold_opt (add_advance adv) line 0"

fun split_lines :: "u32 list \<Rightarrow> u32 list list" where
  "split_lines [] = [[]]"
| "split_lines (cp # cps) =
     (if cp = 10 then [] # split_lines cps
      else (case split_lines cps of
              [] \<Rightarrow> [[cp]]
            | l # ls \<Rightarrow> (cp # l) # ls))"

definition line_widths :: "(u32 \<Rightarrow> f32 option) \<Rightarrow> u32 list \<Rightarrow> u32 list option" where
  "line_widths adv cps = those (map (line_width adv) (split_lines cps))"

definition spec_dimensions :: "(u32 \<Rightarrow> f32 option) \<Rightarrow> u32 \<Rightarrow> u32 list \<Rightarrow> (u32 \<times> u32) option" where
  "spec_dimensions adv fontSize cps =
     map_option (\<lambda>ws. (fold max ws 0, fontSize + fontSize * of_nat (count_list cps 10)))
       (line_widths adv cps)"

text \<open>
  Two intermediate forms for the proofs: the measuring loop on the code points with
  a fixed advance function, and the list of line widths when the first line starts
  from a given width.
\<close>

fun gtd_cps :: "(u32 \<Rightarrow> f32 option) \<Rightarrow> u32 \<Rightarrow> u32 list \<Rightarrow> u32 \<times> u32 \<times> u32
    \<Rightarrow> (u32 \<times> u32 \<times> u32) option" where
  "gtd_cps adv sz [] st = Some st"
| "gtd_cps adv sz (cp # cps) (wd, ht, mw) =
     (if cp = 10 then gtd_cps adv sz cps (0, ht + sz, (if mw < wd then wd else mw))
      else case add_advance adv cp wd of
             None \<Rightarrow> None
           | Some wd' \<Rightarrow> gtd_cps adv sz cps (wd', ht, mw))"

fun widths_from :: "(u32 \<Rightarrow> f32 option) \<Rightarrow> u32 \<Rightarrow> u32 list \<Rightarrow> u32 list option" where
  "widths_from adv wd [] = Some [wd]"
| "widths_from adv wd (cp # cps) =
     (if cp = 10 then map_option ((#) wd) (widths_from adv 0 cps)
      else case add_advance adv cp wd of
             None \<Rightarrow> None
           | Some wd' \<Rightarrow> widths_from adv wd' cps)"

section \<open>Properties of the pixel primitives\<close>

lemma unat_u4_bound: "unat (w :: u4) < 16"
  using unsigned_less [of w, where 'a = nat] by simp

lemma uint_u4_bound: "0 \<le> uint (w :: u4) \<and> uint (w :: u4) < 16"
  using unsigned_less [of w, where 'a = int] by simp

lemma unat_u16_bound: "unat (w :: u16) < 65536"
  using unsigned_less [of w, where 'a = nat] by simp

lemma unat_ucast_u16_u32: "unat (ucast (w :: u16) :: u32) = unat w"
  by (simp add: unsigned_ucast_eq take_bit_nat_eq_self unat_u16_bound [THEN less_trans])

lemma in_bounds_unat:
  "\<not> out_of_bounds c x y \<longleftrightarrow>
     unat x < unat (FramebufferWidth c) \<and> unat y < unat (FramebufferHeight c)"
  by (simp add: out_of_bounds_def word_le_nat_alt unat_ucast_u16_u32 not_le)

lemma unat_fb_offset:
  assumes "\<not> out_of_bounds c x y"
  shows "unat (fb_offset c x y) = unat y * unat (FramebufferWidth c) + unat x"
proof -
  let ?W = "FramebufferWidth c" and ?H = "FramebufferHeight c"
  from assms have x: "unat x < unat ?W" and y: "unat y < unat ?H"
    by (simp_all add: in_bounds_unat)
  have "unat y * unat ?W \<le> 65535 * 65535"
    using y x unat_u16_bound [of ?W] unat_u16_bound [of ?H] by (intro mult_mono) simp_all
  then have "unat y * unat ?W + unat x < 2 ^ 32"
    using x unat_u16_bound [of ?W] by simp
  then show ?thesis
    unfolding fb_offset_def by (simp add: unat_word_ariths unat_ucast_u16_u32)
qed

lemma offset_in_surface:
  assumes "surface_ok c fb" "\<not> out_of_bounds c x y"
  shows "unat (fb_offset c x y) < length fb"
proof -
  let ?W = "FramebufferWidth c" and ?H = "FramebufferHeight c"
  from assms have x: "unat x < unat ?W" and y: "unat y < unat ?H"
    by (simp_all add: in_bounds_unat)
  have "unat y * unat ?W + unat x < (unat y + 1) * unat ?W" using x by simp
  also have "\<dots> \<le> unat ?H * unat ?W" using y by (intro mult_right_mono) simp_all
  finally show ?thesis using assms(1) unat_fb_offset [OF assms(2)]
    by (simp add: surface_ok_def mult.commute)
qed

lemma uint_inv_a: "uint (15 - ucast (sa :: u4) :: u8) = 15 - uint sa"
proof -
  have "0 \<le> uint sa" "uint sa < 16" using uint_u4_bound [of sa] by simp_all
  then have "0 \<le> 15 - uint sa" "15 - uint sa < 256" by linarith+
  moreover have "(15 - ucast sa :: u8) = word_of_int (15 - uint sa)" by simp
  ultimately show ?thesis
    by (simp only: uint_word_of_int take_bit_int_eq_self) (simp add: take_bit_int_eq_self)
qed

lemma blend_sum_bound:
  fixes dst src sa :: u4
  shows "0 \<le> uint dst * (15 - uint sa) + uint src * uint sa"
    and "uint dst * (15 - uint sa) + uint src * uint sa \<le> 225"
proof -
  have d: "0 \<le> uint dst" "uint dst \<le> 15" and s: "0 \<le> uint src" "uint src \<le> 15"
    and al: "0 \<le> uint sa" "uint sa \<le> 15"
    using uint_u4_bound [of dst] uint_u4_bound [of src] uint_u4_bound [of sa] by simp_all
  show "0 \<le> uint dst * (15 - uint sa) + uint src * uint sa"
    using d s al by simp
  have "uint dst * (15 - uint sa) \<le> 15 * (15 - uint sa)"
    using d al by (intro mult_right_mono) simp_all
  moreover have "uint src * uint sa \<le> 15 * uint sa"
    using s al by (intro mult_right_mono) simp_all
  ultimately show "uint dst * (15 - uint sa) + uint src * uint sa \<le> 225" by simp
qed

lemma blend_channel_uint:
  fixes dst src sa :: u4
  shows "uint (ucast (blend_channel dst (15 - ucast sa) src sa) :: u4)
         = (uint dst * (15 - uint sa) + uint src * uint sa) div 16"
proof -
  let ?s = "uint dst * (15 - uint sa) + uint src * uint sa"
  have bnd: "0 \<le> ?s div 16" "?s div 16 < 16"
    using blend_sum_bound [of dst sa src] by simp_all
  have "blend_channel dst (15 - ucast sa) src sa = word_of_int (?s div 16)"
    by (simp only: blend_channel_def uint_inv_a drop_bit_eq_div) simp
  then have "uint (ucast (blend_channel dst (15 - ucast sa) src sa) :: u4)
       = take_bit 4 (take_bit 8 (?s div 16))"
    by (simp only: unsigned_ucast_eq uint_word_of_int) (simp add: take_bit_eq_mod)
  moreover have "take_bit 8 (?s div 16) = ?s div 16"
    using bnd by (intro take_bit_int_eq_self) simp_all
  moreover have "take_bit 4 (?s div 16) = ?s div 16"
    using bnd by (intro take_bit_int_eq_self) simp_all
  ultimately show ?thesis by (simp only:)
qed

lemma blend_channel_val:
  fixes dst src sa :: u4
  shows "unat (ucast (blend_channel dst (15 - ucast sa) src sa) :: u4)
         = drop_bit 4 (unat dst * (15 - unat sa) + unat src * unat sa)"
proof -
  have "int (unat (ucast (blend_channel dst (15 - ucast sa) src sa) :: u4))
      = (uint dst * (15 - uint sa) + uint src * uint sa) div 16"
    using blend_channel_uint [of dst sa src] by simp
  also have "\<dots> = int ((unat dst * (15 - unat sa) + unat src * unat sa) div 16)"
    using unat_u4_bound [of sa] by (simp add: zdiv_int)
  finally have "int (unat (ucast (blend_channel dst (15 - ucast sa) src sa) :: u4)) =
     int ((unat dst * (15 - unat sa) + unat src * unat sa) div 16)" .
  then show ?thesis by (simp only: of_nat_eq_iff drop_bit_eq_div) simp
qed

lemma ucast_u4_u8_u4: "(ucast (ucast (w :: u4) :: u8) :: u4) = w"
  by (rule ucast_up_ucast_id) (simp add: is_up)

lemma setPixelBlend_in_bounds:
  assumes "surface_ok c fb" "\<not> out_of_bounds c x y" "a color \<noteq> 0"
  shows "setPixelBlend c fb x y color =
     Some (fb[unat y * unat (FramebufferWidth c) + unat x :=
       \<lparr>r = ucast (blend_channel (r (fb ! (unat y * unat (FramebufferWidth c) + unat x)))
                 (15 - ucast (a color)) (r color) (a color)),
        g = ucast (blend_channel (g (fb ! (unat y * unat (FramebufferWidth c) + unat x)))
                 (15 - ucast (a color)) (g color) (a color)),
        b = ucast (blend_channel (b (fb ! (unat y * unat (FramebufferWidth c) + unat x)))
                 (15 - ucast (a color)) (b color) (a color)),
        a = a (fb ! (unat y * unat (FramebufferWidth c) + unat x))\<rparr>])"
  using assms offset_in_surface [OF assms(1,2)] unat_fb_offset [OF assms(2)]
  by (simp add: setPixelBlend_def mkColor_def Let_def ucast_u4_u8_u4)

lemma opaque_channel: "s < 16 \<Longrightarrow> drop_bit 4 (d * (15 - 15) + s * 15) = (s::nat) - 1"
  by (simp add: drop_bit_eq_div)

subsection \<open>Blending\<close>

text \<open>
  C1. On a surface of the configured size and at an in-bounds coordinate,
  \<open>setPixelBlend\<close> with a colour of non-zero alpha writes each of the r, g, b
  channels of the destination cell as \<open>(dst * (15 - srcA) + src * srcA) >> 4\<close> and
  keeps the cell's alpha; with a colour of alpha 0 it returns the surface as it was.
\<close>

theorem C1_setPixelBlend_blend:
  assumes "surface_ok c fb"
    and "unat x < unat (FramebufferWidth c)" and "unat y < unat (FramebufferHeight c)"
  shows "let off = unat y * unat (FramebufferWidth c) + unat x; dst = fb ! off in
     off < length fb \<and>
     (if a color = 0 then setPixelBlend c fb x y color = Some fb
      else \<exists>px. setPixelBlend c fb x y color = Some (fb[off := px]) \<and>
        unat (r px) = drop_bit 4 (unat (r dst) * (15 - unat (a color)) + unat (r color) * unat (a color)) \<and>
        unat (g px) = drop_bit 4 (unat (g dst) * (15 - unat (a color)) + unat (g color) * unat (a color)) \<and>
        unat (b px) = drop_bit 4 (unat (b dst) * (15 - unat (a color)) + unat (b color) * unat (a color)) \<and>
        a px = a dst)"
proof -
  let ?off = "unat y * unat (FramebufferWidth c) + unat x"
  have ib: "\<not> out_of_bounds c x y" using assms(2,3) by (simp add: in_bounds_unat)
  have off: "?off < length fb"
    using offset_in_surface [OF assms(1) ib] unat_fb_offset [OF ib] by simp
  show ?thesis
  proof (cases "a color = 0")
    case True
    then show ?thesis using off by (simp add: setPixelBlend_def Let_def)
  next
    case False
    let ?px = "\<lparr>r = ucast (blend_channel (r (fb ! ?off)) (15 - ucast (a color)) (r color) (a color)),
        g = ucast (blend_channel (g (fb ! ?off)) (15 - ucast (a color)) (g color) (a color)),
        b = ucast (blend_channel (b (fb ! ?off)) (15 - ucast (a color)) (b color) (a color)),
        a = a (fb ! ?off)\<rparr>"
    have "setPixelBlend c fb x y color = Some (fb[?off := ?px])"
      by (rule setPixelBlend_in_bounds [OF assms(1) ib False])
    moreover have "unat (r ?px) = drop_bit 4 (unat (r (fb ! ?off)) * (15 - unat (a color)) + unat (r color) * unat (a color))"
      "unat (g ?px) = drop_bit 4 (unat (g (fb ! ?off)) * (15 - unat (a color)) + unat (g color) * unat (a color))"
      "unat (b ?px) = drop_bit 4 (unat (b (fb ! ?off)) * (15 - unat (a color)) + unat (b color) * unat (a color))"
      "a ?px = a (fb ! ?off)"
      by (simp_all add: blend_channel_val)
    ultimately have "\<exists>px. setPixelBlend c fb x y color = Some (fb[?off := px]) \<and>
        unat (r px) = drop_bit 4 (unat (r (fb ! ?off)) * (15 - unat (a color)) + unat (r color) * unat (a color)) \<and>
        unat (g px) = drop_bit 4 (unat (g (fb ! ?off)) * (15 - unat (a color)) + unat (g color) * unat (a color)) \<and>
        unat (b px) = drop_bit 4 (unat (b (fb ! ?off)) * (15 - unat (a color)) + unat (b color) * unat (a color)) \<and>
        a px = a (fb ! ?off)"
      by blast
    then show ?thesis using off False by (simp only: Let_def if_False simp_thms)
  qed
qed

theorem C1_setPixelBlend_blend_witness:
  "surface_ok \<lparr>FramebufferWidth = 2, FramebufferHeight = 2\<rparr>
      [\<lparr>r = 1, g = 1, b = 1, a = 1\<rparr>, \<lparr>r = 2, g = 2, b = 2, a = 2\<rparr>,
       \<lparr>r = 3, g = 3, b = 3, a = 3\<rparr>, \<lparr>r = 8, g = 4, b = 15, a = 13\<rparr>] \<and>
   unat (1 :: u32) < unat (FramebufferWidth \<lparr>FramebufferWidth = 2, FramebufferHeight = 2\<rparr>) \<and>
   unat (1 :: u32) < unat (FramebufferHeight \<lparr>FramebufferWidth = 2, FramebufferHeight = 2\<rparr>) \<and>
   setPixelBlend \<lparr>FramebufferWidth = 2, FramebufferHeight = 2\<rparr>
      [\<lparr>r = 1, g = 1, b = 1, a = 1\<rparr>, \<lparr>r = 2, g = 2, b = 2, a = 2\<rparr>,
       \<lparr>r = 3, g = 3, b = 3, a = 3\<rparr>, \<lparr>r = 8, g = 4, b = 15, a = 13\<rparr>] 1 1
      \<lparr>r = 15, g = 2, b = 0, a = 8\<rparr>
    = Some [\<lparr>r = 1, g = 1, b = 1, a = 1\<rparr>, \<lparr>r = 2, g = 2, b = 2, a = 2\<rparr>,
       \<lparr>r = 3, g = 3, b = 3, a = 3\<rparr>, \<lparr>r = 11, g = 2, b = 6, a = 13\<rparr>]"
proof -
  let ?c = "\<lparr>FramebufferWidth = 2, FramebufferHeight = 2\<rparr>"
  let ?fb = "[\<lparr>r = 1, g = 1, b = 1, a = 1\<rparr>, \<lparr>r = 2, g = 2, b = 2, a = 2\<rparr>,
       \<lparr>r = 3, g = 3, b = 3, a = 3\<rparr>, \<lparr>r = 8, g = 4, b = 15, a = 13 :: u4\<rparr>]"
  let ?col = "\<lparr>r = 15, g = 2, b = 0, a = 8 :: u4\<rparr>"
  have h1: "surface_ok ?c ?fb" by (simp add: surface_ok_def)
  have h2: "unat (1 :: u32) < unat (FramebufferWidth ?c)" by simp
  have h3: "unat (1 :: u32) < unat (FramebufferHeight ?c)" by simp
  from C1_setPixelBlend_blend [OF h1 h2 h3, of ?col]
  obtain px where px: "setPixelBlend ?c ?fb 1 1 ?col = Some (?fb[3 := px])"
    "unat (r px) = 11" "unat (g px) = 2" "unat (b px) = 6" "a px = 13"
    by (auto simp: Let_def drop_bit_eq_div)
  have "r px = 11" "g px = 2" "b px = 6"
    using px(2-4) by (simp_all add: word_eq_iff_unsigned [where 'a = nat])
  with px(5) have "px = \<lparr>r = 11, g = 2, b = 6, a = 13\<rparr>" by (cases px) simp
  with px(1) h1 h2 h3 show ?thesis by simp
qed

text \<open>
  C2, as stated: a fully opaque colour (alpha 15) replaces r, g, b by the source's
  values. It does not: white \<open>(15, 15, 15, 15)\<close> blended onto a cell leaves
  \<open>(14, 14, 14)\<close>, since \<open>(15 * 15) >> 4 = 14\<close>.
\<close>

theorem C2_opaque_blend_counterexample:
  "surface_ok \<lparr>FramebufferWidth = 1, FramebufferHeight = 1\<rparr> [\<lparr>r = 0, g = 0, b = 0, a = 0\<rparr>] \<and>
   setPixelBlend \<lparr>FramebufferWidth = 1, FramebufferHeight = 1\<rparr> [\<lparr>r = 0, g = 0, b = 0, a = 0\<rparr>] 0 0
       \<lparr>r = 15, g = 15, b = 15, a = 15\<rparr>
     = Some [\<lparr>r = 14, g = 14, b = 14, a = 0\<rparr>] \<and>
   r \<lparr>r = 14, g = 14, b = 14, a = 0 :: u4\<rparr> \<noteq> r \<lparr>r = 15, g = 15, b = 15, a = 15 :: u4\<rparr>"
  by (simp add: surface_ok_def setPixelBlend_def out_of_bounds_def fb_offset_def mkColor_def
      blend_channel_def Let_def word_le_nat_alt)

text \<open>
  C2, amended. On a surface of the configured size and at an in-bounds coordinate,
  \<open>setPixelBlend\<close> with a colour of alpha 15 writes r, g, b that do not depend on the
  destination's r, g, b: each is \<open>(src * 15) >> 4\<close>, which is \<open>src - 1\<close> for a source
  channel of 1 to 15 and 0 for a source channel of 0. The destination's alpha is kept.
\<close>

theorem C2_opaque_blend:
  assumes "surface_ok c fb"
    and "unat x < unat (FramebufferWidth c)" and "unat y < unat (FramebufferHeight c)"
    and "a color = 15"
  shows "let off = unat y * unat (FramebufferWidth c) + unat x; dst = fb ! off in
     off < length fb \<and>
     (\<exists>px. setPixelBlend c fb x y color = Some (fb[off := px]) \<and>
        unat (r px) = drop_bit 4 (unat (r color) * 15) \<and> unat (r px) = unat (r color) - 1 \<and>
        unat (g px) = drop_bit 4 (unat (g color) * 15) \<and> unat (g px) = unat (g color) - 1 \<and>
        unat (b px) = drop_bit 4 (unat (b color) * 15) \<and> unat (b px) = unat (b color) - 1 \<and>
        a px = a dst)"
proof -
  let ?off = "unat y * unat (FramebufferWidth c) + unat x"
  have ib: "\<not> out_of_bounds c x y" using assms(2,3) by (simp add: in_bounds_unat)
  have off: "?off < length fb"
    using offset_in_surface [OF assms(1) ib] unat_fb_offset [OF ib] by simp
  have nz: "a color \<noteq> 0" using assms(4) by simp
  have ua: "unat (a color) = 15" using assms(4) by simp
  let ?px = "\<lparr>r = ucast (blend_channel (r (fb ! ?off)) (15 - ucast (a color)) (r color) (a color)),
      g = ucast (blend_channel (g (fb ! ?off)) (15 - ucast (a color)) (g color) (a color)),
      b = ucast (blend_channel (b (fb ! ?off)) (15 - ucast (a color)) (b color) (a color)),
      a = a (fb ! ?off)\<rparr>"
  have res: "setPixelBlend c fb x y color = Some (fb[?off := ?px])"
    by (rule setPixelBlend_in_bounds [OF assms(1) ib nz])
  have ch: "unat (r ?px) = drop_bit 4 (unat (r color) * 15)"
      "unat (g ?px) = drop_bit 4 (unat (g color) * 15)"
      "unat (b ?px) = drop_bit 4 (unat (b color) * 15)"
      "a ?px = a (fb ! ?off)"
    by (simp_all add: blend_channel_val ua)
  have ch': "unat (r ?px) = unat (r color) - 1"
      "unat (g ?px) = unat (g color) - 1"
      "unat (b ?px) = unat (b color) - 1"
    using opaque_channel [OF unat_u4_bound [of "r color"], of 0]
      opaque_channel [OF unat_u4_bound [of "g color"], of 0]
      opaque_channel [OF unat_u4_bound [of "b color"], of 0] ch(1-3)
    by simp_all
  from res ch ch' have "\<exists>px. setPixelBlend c fb x y color = Some (fb[?off := px]) \<and>
        unat (r px) = drop_bit 4 (unat (r color) * 15) \<and> unat (r px) = unat (r color) - 1 \<and>
        unat (g px) = drop_bit 4 (unat (g color) * 15) \<and> unat (g px) = unat (g color) - 1 \<and>
        unat (b px) = drop_bit 4 (unat (b color) * 15) \<and> unat (b px) = unat (b color) - 1 \<and>
        a px = a (fb ! ?off)"
    by blast
  then show ?thesis using off by (simp only: Let_def simp_thms)
qed

theorem C2_opaque_blend_witness:
  "surface_ok \<lparr>FramebufferWidth = 2, FramebufferHeight = 1\<rparr>
      [\<lparr>r = 3, g = 4, b = 5, a = 6\<rparr>, \<lparr>r = 9, g = 0, b = 15, a = 13\<rparr>] \<and>
   unat (1 :: u32) < unat (FramebufferWidth \<lparr>FramebufferWidth = 2, FramebufferHeight = 1\<rparr>) \<and>
   unat (0 :: u32) < unat (FramebufferHeight \<lparr>FramebufferWidth = 2, FramebufferHeight = 1\<rparr>) \<and>
   a \<lparr>r = 15, g = 1, b = 0, a = 15\<rparr> = 15 \<and>
   setPixelBlend \<lparr>FramebufferWidth = 2, FramebufferHeight = 1\<rparr>
      [\<lparr>r = 3, g = 4, b = 5, a = 6\<rparr>, \<lparr>r = 9, g = 0, b = 15, a = 13\<rparr>] 1 0
      \<lparr>r = 15, g = 1, b = 0, a = 15\<rparr>
    = Some [\<lparr>r = 3, g = 4, b = 5, a = 6\<rparr>, \<lparr>r = 14, g = 0, b = 0, a = 13\<rparr>]"
proof -
  let ?c = "\<lparr>FramebufferWidth = 2, FramebufferHeight = 1\<rparr>"
  let ?fb = "[\<lparr>r = 3, g = 4, b = 5, a = 6\<rparr>, \<lparr>r = 9, g = 0, b = 15, a = 13 :: u4\<rparr>]"
  let ?col = "\<lparr>r = 15, g = 1, b = 0, a = 15 :: u4\<rparr>"
  have h1: "surface_ok ?c ?fb" by (simp add: surface_ok_def)
  have h2: "unat (1 :: u32) < unat (FramebufferWidth ?c)" by simp
  have h3: "unat (0 :: u32) < unat (FramebufferHeight ?c)" by simp
  have h4: "a ?col = 15" by simp
  from C2_opaque_blend [OF h1 h2 h3 h4]
  obtain px where px: "setPixelBlend ?c ?fb 1 0 ?col = Some (?fb[1 := px])"
    "unat (r px) = 14" "unat (g px) = 0" "unat (b px) = 0" "a px = 13"
    by (auto simp: Let_def drop_bit_eq_div)
  have "r px = 14" "g px = 0" "b px = 0"
    using px(2-4) by (simp_all add: word_eq_iff_unsigned [where 'a = nat])
  with px(5) have "px = \<lparr>r = 14, g = 0, b = 0, a = 13\<rparr>" by (cases px) simp
  with px(1) h1 h2 h3 h4 show ?thesis by simp
qed

subsection \<open>Coordinates outside the surface\<close>

text \<open>
  C9. For a coordinate with \<open>x >= FramebufferWidth\<close> or \<open>y >= FramebufferHeight\<close> and
  any colour, \<open>setPixel\<close> and \<open>setPixelBlend\<close> return the surface unchanged, whatever
  its size: the early return comes before any cell is read or written, so no index
  is formed (the result is never the \<open>None\<close> of an out-of-range access).
\<close>

theorem C9_out_of_bounds_noop:
  assumes "unat (FramebufferWidth c) \<le> unat x \<or> unat (FramebufferHeight c) \<le> unat y"
  shows "setPixel c fb x y color = Some fb \<and> setPixelBlend c fb x y color = Some fb"
proof -
  have "out_of_bounds c x y" using assms in_bounds_unat [of c x y] by (auto simp: not_less)
  then show ?thesis by (simp add: setPixel_def setPixelBlend_def)
qed

theorem C9_out_of_bounds_noop_witness:
  "(unat (FramebufferWidth \<lparr>FramebufferWidth = 2, FramebufferHeight = 1\<rparr>) \<le> unat (2 :: u32) \<or>
    unat (FramebufferHeight \<lparr>FramebufferWidth = 2, FramebufferHeight = 1\<rparr>) \<le> unat (0 :: u32)) \<and>
   setPixel \<lparr>FramebufferWidth = 2, FramebufferHeight = 1\<rparr>
      [\<lparr>r = 3, g = 4, b = 5, a = 6\<rparr>, \<lparr>r = 9, g = 0, b = 15, a = 13\<rparr>] 2 0
      \<lparr>r = 15, g = 1, b = 0, a = 15\<rparr>
    = Some [\<lparr>r = 3, g = 4, b = 5, a = 6\<rparr>, \<lparr>r = 9, g = 0, b = 15, a = 13\<rparr>] \<and>
   setPixelBlend \<lparr>FramebufferWidth = 2, FramebufferHeight = 1\<rparr>
      [\<lparr>r = 3, g = 4, b = 5, a = 6\<rparr>, \<lparr>r = 9, g = 0, b = 15, a = 13\<rparr>] 2 0
      \<lparr>r = 15, g = 1, b = 0, a = 15\<rparr>
    = Some [\<lparr>r = 3, g = 4, b = 5, a = 6\<rparr>, \<lparr>r = 9, g = 0, b = 15, a = 13\<rparr>]"
  using C9_out_of_bounds_noop [of "\<lparr>FramebufferWidth = 2, FramebufferHeight = 1\<rparr>" 2 0
      "[\<lparr>r = 3, g = 4, b = 5, a = 6\<rparr>, \<lparr>r = 9, g = 0, b = 15, a = 13\<rparr>]"
      "\<lparr>r = 15, g = 1, b = 0, a = 15\<rparr>"]
  by simp

section \<open>Properties of focus\<close>

lemma setFocused_at_live:
  "ptr_live els p \<Longrightarrow> \<exists>els'. setFocused_at p v els = Some els'"
  by (auto simp: ptr_live_def setFocused_at_def split: ptr.splits option.splits)

lemma setFocused_at_dom:
  "setFocused_at p v els = Some els' \<Longrightarrow> (els' n \<noteq> None) = (els n \<noteq> None)"
  by (auto simp: setFocused_at_def split: ptr.splits option.splits if_splits)

lemma setFocused_at_flag:
  "setFocused_at p v els = Some els' \<Longrightarrow>
     (case els' n of None \<Rightarrow> False | Some e \<Rightarrow> isFocused e) =
     (if p = Addr n then v else (case els n of None \<Rightarrow> False | Some e \<Rightarrow> isFocused e))"
  by (auto simp: setFocused_at_def setFocused_def isFocused_def split: ptr.splits option.splits if_splits)

lemma requestFocus_Some:
  assumes "ptr_live (elements gui) (m_focusedElement gui)" "ptr_live (elements gui) p"
  shows "\<exists>gui'. requestFocus p d gui = Some gui'"
proof -
  from setFocused_at_live [OF assms(1)] obtain els1
    where 1: "setFocused_at (m_focusedElement gui) False (elements gui) = Some els1" by blast
  have "ptr_live els1 p"
    using assms(2) setFocused_at_dom [OF 1] by (auto simp: ptr_live_def split: ptr.splits)
  from setFocused_at_live [OF this] obtain els2
    where 2: "setFocused_at p True els1 = Some els2" by blast
  show ?thesis using 1 2 by (simp add: requestFocus_def)
qed

lemma requestFocus_effect:
  assumes "requestFocus p d gui = Some gui'"
  shows "m_focusedElement gui' = p"
    and "(elements gui' n \<noteq> None) = (elements gui n \<noteq> None)"
    and "isFocused_at gui' n =
          (if p = Addr n then True
           else if m_focusedElement gui = Addr n then False else isFocused_at gui n)"
proof -
  from assms obtain els1 els2 where
    1: "setFocused_at (m_focusedElement gui) False (elements gui) = Some els1" and
    2: "setFocused_at p True els1 = Some els2" and
    g: "gui' = gui\<lparr>m_focusedElement := p, elements := els2\<rparr>"
    by (auto simp: requestFocus_def split: option.splits)
  show "m_focusedElement gui' = p" using g by simp
  show "(elements gui' n \<noteq> None) = (elements gui n \<noteq> None)"
    using g setFocused_at_dom [OF 1, of n] setFocused_at_dom [OF 2, of n] by simp
  show "isFocused_at gui' n =
          (if p = Addr n then True
           else if m_focusedElement gui = Addr n then False else isFocused_at gui n)"
    using g setFocused_at_flag [OF 1, of n] setFocused_at_flag [OF 2, of n]
    by (simp add: isFocused_at_def)
qed

lemma requestFocus_inv:
  assumes "requestFocus p d gui = Some gui'" "focus_inv T gui"
  shows "focus_inv T gui'"
  using assms(2) requestFocus_effect [OF assms(1)]
  by (auto simp: focus_inv_def split: if_splits)

lemma requestFocus_seq_defined:
  assumes "ptr_live (elements gui) (m_focusedElement gui)"
    and "\<forall>p\<in>fst ` set reqs. ptr_live (elements gui) p"
  shows "\<exists>gui'. requestFocus_seq reqs gui = Some gui'"
  using assms
proof (induction reqs arbitrary: gui)
  case Nil
  then show ?case by simp
next
  case (Cons rq reqs)
  obtain p d where rq: "rq = (p, d)" by (cases rq)
  have "ptr_live (elements gui) p" using Cons.prems(2) rq by simp
  from requestFocus_Some [OF Cons.prems(1) this] obtain gui1
    where 1: "requestFocus p d gui = Some gui1" by blast
  have live: "ptr_live (elements gui1) q = ptr_live (elements gui) q" for q
    using requestFocus_effect(2) [OF 1] by (auto simp: ptr_live_def split: ptr.splits)
  have "ptr_live (elements gui1) (m_focusedElement gui1)"
    using requestFocus_effect(1) [OF 1] live \<open>ptr_live (elements gui) p\<close> by simp
  moreover have "\<forall>q\<in>fst ` set reqs. ptr_live (elements gui1) q"
    using Cons.prems(2) live by simp
  ultimately obtain gui' where "requestFocus_seq reqs gui1 = Some gui'"
    using Cons.IH by blast
  then show ?case using 1 rq by simp
qed

lemma requestFocus_seq_inv:
  assumes "requestFocus_seq reqs gui = Some gui'" "focus_inv T gui"
  shows "focus_inv T gui'"
  using assms
proof (induction reqs arbitrary: gui)
  case Nil
  then show ?case by simp
next
  case (Cons rq reqs)
  obtain p d where rq: "rq = (p, d)" by (cases rq)
  from Cons.prems(1) rq obtain gui1 where 1: "requestFocus p d gui = Some gui1"
    and 2: "requestFocus_seq reqs gui1 = Some gui'"
    by (auto split: option.splits)
  show ?case using Cons.IH [OF 2 requestFocus_inv [OF 1 Cons.prems(2)]] .
qed

lemma requestFocus_seq_last:
  assumes "requestFocus_seq reqs gui = Some gui'" "reqs \<noteq> []"
  shows "m_focusedElement gui' = fst (last reqs)"
    and "fst (last reqs) = Addr n \<Longrightarrow> isFocused_at gui' n"
  using assms
proof (induction reqs arbitrary: gui)
  case Nil
  {
    case 1 then show ?case by simp
  next
    case 2 then show ?case by simp
  }
next
  case (Cons rq reqs)
  obtain p d where rq: "rq = (p, d)" by (cases rq)
  {
    case 1
    from 1(1) rq obtain gui1 where a: "requestFocus p d gui = Some gui1"
      and b: "requestFocus_seq reqs gui1 = Some gui'"
      by (auto split: option.splits)
    show ?case
    proof (cases "reqs = []")
      case True
      then show ?thesis using a b rq requestFocus_effect(1) [OF a] by simp
    next
      case False
      then show ?thesis using Cons.IH(1) [OF b False] by simp
    qed
  next
    case 2
    from 2(2) rq obtain gui1 where a: "requestFocus p d gui = Some gui1"
      and b: "requestFocus_seq reqs gui1 = Some gui'"
      by (auto split: option.splits)
    show ?case
    proof (cases "reqs = []")
      case True
      then show ?thesis using a b rq requestFocus_effect(3) [OF a, of n] 2(1) by simp
    next
      case False
      then show ?thesis using Cons.IH(2) [OF _ b False] 2(1) by simp
    qed
  }
qed

text \<open>
  C6. Take a screen whose focus pointer is null and a set \<open>T\<close> of element addresses
  (its tree) none of which is focused, and any sequence of \<open>requestFocus\<close> calls
  whose non-null arguments are live elements. The sequence runs to the end, after
  it at most one element of \<open>T\<close> reports \<open>isFocused()\<close>, and when the last call
  named a non-null element, that element is focused and no other element of \<open>T\<close> is.
\<close>

theorem C6_focus_unique:
  assumes "m_focusedElement gui = Null"
    and "\<forall>n\<in>T. \<not> isFocused_at gui n"
    and "\<forall>p\<in>fst ` set reqs. \<forall>n. p = Addr n \<longrightarrow> elements gui n \<noteq> None"
  shows "\<exists>gui'. requestFocus_seq reqs gui = Some gui' \<and>
     (\<forall>n\<in>T. \<forall>m\<in>T. isFocused_at gui' n \<and> isFocused_at gui' m \<longrightarrow> n = m) \<and>
     (\<forall>n. reqs \<noteq> [] \<and> fst (last reqs) = Addr n \<longrightarrow>
        isFocused_at gui' n \<and> (\<forall>m\<in>T. isFocused_at gui' m \<longrightarrow> m = n))"
proof -
  have live0: "ptr_live (elements gui) (m_focusedElement gui)"
    using assms(1) by (simp add: ptr_live_def)
  have live: "\<forall>p\<in>fst ` set reqs. ptr_live (elements gui) p"
    using assms(3) by (auto simp: ptr_live_def split: ptr.splits)
  from requestFocus_seq_defined [OF live0 live] obtain gui'
    where run: "requestFocus_seq reqs gui = Some gui'" by blast
  have "focus_inv T gui" using assms(2) by (simp add: focus_inv_def)
  from requestFocus_seq_inv [OF run this] have inv: "focus_inv T gui'" .
  have uniq: "\<forall>n\<in>T. \<forall>m\<in>T. isFocused_at gui' n \<and> isFocused_at gui' m \<longrightarrow> n = m"
    using inv unfolding focus_inv_def by (metis ptr.inject)
  have lst: "\<forall>n. reqs \<noteq> [] \<and> fst (last reqs) = Addr n \<longrightarrow>
        isFocused_at gui' n \<and> (\<forall>m\<in>T. isFocused_at gui' m \<longrightarrow> m = n)"
    using requestFocus_seq_last [OF run] inv unfolding focus_inv_def by (metis ptr.inject)
  show ?thesis using run uniq lst by blast
qed

theorem C6_focus_unique_witness:
  "\<exists>gui'. requestFocus_seq [(Addr 0, FocusNone), (Addr 2, Down)]
             (Gui_new (\<lambda>n. if n < 3 then Some Element_new else None)) = Some gui' \<and>
          isFocused_at gui' 2 \<and> \<not> isFocused_at gui' 0 \<and> \<not> isFocused_at gui' 1"
proof -
  let ?g = "Gui_new (\<lambda>n. if n < 3 then Some Element_new else None)"
  let ?reqs = "[(Addr 0, FocusNone), (Addr 2, Down)]"
  have h1: "m_focusedElement ?g = Null" by (simp add: Gui_new_def)
  have h2: "\<forall>n\<in>{0, 1, 2}. \<not> isFocused_at ?g n"
    by (simp add: Gui_new_def isFocused_at_def isFocused_def Element_new_def)
  have h3: "\<forall>p\<in>fst ` set ?reqs. \<forall>n. p = Addr n \<longrightarrow> elements ?g n \<noteq> None"
    by (simp add: Gui_new_def)
  from C6_focus_unique [OF h1 h2 h3] obtain gui' where
    run: "requestFocus_seq ?reqs ?g = Some gui'" and
    lst: "\<forall>n. ?reqs \<noteq> [] \<and> fst (last ?reqs) = Addr n \<longrightarrow>
        isFocused_at gui' n \<and> (\<forall>m\<in>{0, 1, 2}. isFocused_at gui' m \<longrightarrow> m = n)"
    by blast
  from lst have "isFocused_at gui' 2" "\<not> isFocused_at gui' 0" "\<not> isFocused_at gui' 1"
    by auto
  with run show ?thesis by blast
qed

section \<open>Properties of the navigation stack\<close>

text \<open>
  C5. With live screens \<open>A\<close> and \<open>B\<close> at different addresses: pushing \<open>A\<close> and then
  \<open>B\<close> changes no screen object; dropping the top afterwards gives back the state
  after the push of \<open>A\<close>, where \<open>A\<close> is current and unchanged; and \<open>changeGui(C)\<close>
  with \<open>B\<close> on top deletes \<open>B\<close>, makes \<open>C\<close> current, keeps the entries beneath and
  leaves every screen object but \<open>B\<close> as it was.
\<close>

theorem C5_push_pop_change:
  assumes "guis ov pa = Some ga" and "guis ov pb = Some gb" and "pa \<noteq> pb"
  shows "let ovA = pushGui (Addr pa) ov; ovB = pushGui (Addr pb) ovA in
     guis ovB = guis ov \<and>
     guiStack_pop ovB = Some ovA \<and> getCurrentGui ovA = Addr pa \<and> guis ovA pa = Some ga \<and>
     (\<exists>ovC. changeGui pc ovB = Some ovC \<and>
        getCurrentGui ovC = pc \<and>
        m_guiStack ovC = pc # Addr pa # m_guiStack ov \<and>
        guis ovC = (guis ov)(pb := None) \<and>
        guis ovC pb = None \<and> guis ovC pa = Some ga)"
  using assms
  by (simp add: pushGui_def guiStack_pop_def getCurrentGui_def changeGui_def delete_gui_def Let_def)

theorem C5_push_pop_change_witness:
  "guis \<lparr>m_guiStack = [], m_shouldClose = False, guis = (\<lambda>n. if n < 3 then Some (10 + n) else None)\<rparr> 0 = Some 10 \<and>
   guis \<lparr>m_guiStack = [], m_shouldClose = False, guis = (\<lambda>n. if n < 3 then Some (10 + n) else None)\<rparr> 1 = Some 11 \<and>
   (0 :: nat) \<noteq> 1 \<and>
   guiStack_pop \<lparr>m_guiStack = [Addr 1, Addr 0], m_shouldClose = False, guis = (\<lambda>n. if n < 3 then Some (10 + n) else None)\<rparr>
     = Some \<lparr>m_guiStack = [Addr 0], m_shouldClose = False, guis = (\<lambda>n. if n < 3 then Some (10 + n) else None)\<rparr> \<and>
   (\<exists>ovC. changeGui (Addr 2)
        \<lparr>m_guiStack = [Addr 1, Addr 0], m_shouldClose = False, guis = (\<lambda>n. if n < 3 then Some (10 + n) else None)\<rparr>
        = Some ovC \<and>
      getCurrentGui ovC = Addr 2 \<and> m_guiStack ovC = [Addr 2, Addr 0] \<and>
      guis ovC 1 = None \<and> guis ovC 0 = Some 10 \<and> guis ovC 2 = Some 12)"
  using C5_push_pop_change [of "\<lparr>m_guiStack = [], m_shouldClose = False, guis = (\<lambda>n. if n < 3 then Some (10 + n) else None)\<rparr>"
      0 10 1 11 "Addr 2"]
  by (auto simp: pushGui_def Let_def)

text \<open>
  C10. On an empty stack \<open>changeGui\<close> deletes nothing and pushes the given screen:
  it returns (no fault), the stack holds that one entry, the screen objects are
  untouched and \<open>getCurrentGui\<close> is the given screen.
\<close>

theorem C10_changeGui_empty:
  assumes "m_guiStack ov = []"
  shows "changeGui gui ov = Some (ov\<lparr>m_guiStack := [gui]\<rparr>) \<and>
         m_guiStack (ov\<lparr>m_guiStack := [gui]\<rparr>) = [gui] \<and>
         guis (ov\<lparr>m_guiStack := [gui]\<rparr>) = guis ov \<and>
         getCurrentGui (ov\<lparr>m_guiStack := [gui]\<rparr>) = gui"
  using assms by (simp add: changeGui_def getCurrentGui_def)

theorem C10_changeGui_empty_witness:
  "m_guiStack \<lparr>m_guiStack = [], m_shouldClose = False, guis = (\<lambda>n. if n = 7 then Some () else None)\<rparr> = [] \<and>
   changeGui (Addr 7) \<lparr>m_guiStack = [], m_shouldClose = False, guis = (\<lambda>n. if n = 7 then Some () else None)\<rparr>
     = Some \<lparr>m_guiStack = [Addr 7], m_shouldClose = False, guis = (\<lambda>n. if n = 7 then Some () else None)\<rparr> \<and>
   getCurrentGui \<lparr>m_guiStack = [Addr 7], m_shouldClose = False, guis = (\<lambda>n. if n = 7 then Some () else None)\<rparr>
     = Addr 7"
  using C10_changeGui_empty [of "\<lparr>m_guiStack = [], m_shouldClose = False, guis = (\<lambda>n. if n = 7 then Some () else None)\<rparr>" "Addr 7"]
  by simp

section \<open>Properties of layout\<close>

lemma ucast_u32_u16_add: "(ucast (v + w :: u32) :: u16) = ucast v + ucast w"
  by (simp add: word_eq_iff_unsigned [where 'a = int] unsigned_ucast_eq uint_word_ariths take_bit_eq_mod mod_mod_cancel mod_simps)


lemma ucast_u16_u32_u16: "(ucast (ucast (v :: u16) :: u32) :: u16) = v"
  by (rule ucast_up_ucast_id) (simp add: is_up)

lemma uint_u16_bound: "0 \<le> uint (w :: u16) \<and> uint (w :: u16) < 65536"
  using unsigned_less [of w, where 'a = int] by simp

lemma sint_ucast_u16: "sint (ucast (v :: u16) :: u32) = uint v"
proof -
  have "- (2 ^ 31) \<le> uint v"
    using order_trans [of "- (2 ^ 31)" 0 "uint v"] by simp
  moreover have "uint v < 2 ^ 31"
    using uint_u16_bound [of v] by simp
  ultimately
  have "signed_take_bit 31 (uint v) = uint v"
    by (rule signed_take_bit_int_eq_self)
  then show ?thesis by (simp add: signed_ucast_eq)
qed

lemma sint_s32_bound: "- (2 ^ 31) \<le> sint (w :: s32) \<and> sint w < 2 ^ 31"
  using sint_ge [of w] sint_lt [of w] by simp

lemma s32_add_currY:
  assumes "sint hgt < 2 ^ 31 - 65536"
  shows "s32_add (ucast (cy :: u16)) hgt = Some (ucast cy + hgt)"
proof -
  have "0 \<le> uint cy" "uint cy < 65536" "- 2147483648 \<le> sint hgt" "sint hgt < 2147418112"
    using assms sint_s32_bound [of hgt] uint_u16_bound [of cy] by simp_all
  then have "- 2147483648 \<le> uint cy + sint hgt" "uint cy + sint hgt < 2147483648"
    by linarith+
  then show ?thesis by (simp add: s32_add_def sint_ucast_u16)
qed

lemma s32_sub_y:
  assumes "- (2 ^ 31 - 65536) \<le> sint scroll"
  shows "s32_sub (ucast (y :: u16)) scroll = Some (ucast y - scroll)"
proof -
  have "0 \<le> uint y" "uint y < 65536" "- 2147418112 \<le> sint scroll" "sint scroll < 2147483648"
    using assms sint_s32_bound [of scroll] uint_u16_bound [of y] by simp_all
  then have "- 2147483648 \<le> uint y - sint scroll" "uint y - sint scroll < 2147483648"
    by linarith+
  then show ?thesis by (simp add: s32_sub_def sint_ucast_u16)
qed

lemma getHeight_layout_Item:
  "getHeight (Item (Element_layout x y w (ucast (getHeight (Item e ho))) e) ho) = getHeight (Item e ho)"
  by (cases ho) (simp_all add: Element_layout_def ucast_u16_u32_u16)

lemma layout_items_Item:
  assumes "sint (getHeight (Item e ho)) < 2 ^ 31 - 65536"
  shows "layout_items x cy w (Item e ho # rest) =
     (case layout_items x (cy + ucast (getHeight (Item e ho))) w rest of
        None \<Rightarrow> None
      | Some rest' \<Rightarrow>
          Some (Item (Element_layout x cy w (ucast (getHeight (Item e ho))) e) ho # rest'))"
  using s32_add_currY [OF assms, of cy]
  by (simp add: getHeight_layout_Item ucast_u32_u16_add ucast_u16_u32_u16 del: getHeight.simps)








lemma layout_frame_three_items:
  assumes "sint (getHeight (Item e1 ho1)) < 2 ^ 31 - 65536"
    and "sint (getHeight (Item e2 ho2)) < 2 ^ 31 - 65536"
    and "sint (getHeight (Item e3 ho3)) < 2 ^ 31 - 65536"
  shows "layout x y w h (OverlayFrame fe title subtitle
            (Some (List le [Item e1 ho1, Item e2 ho2, Item e3 ho3] 0))) =
     Some (OverlayFrame (Element_layout x y w h fe) title subtitle
       (Some (List (Element_layout (x + 20) (y + 100) (w - 40) (h - 150) le)
          [Item (Element_layout (x + 20) (y + 100) (w - 40) (ucast (getHeight (Item e1 ho1))) e1) ho1,
           Item (Element_layout (x + 20) (y + 100 + ucast (getHeight (Item e1 ho1))) (w - 40)
                  (ucast (getHeight (Item e2 ho2))) e2) ho2,
           Item (Element_layout (x + 20)
                  (y + 100 + ucast (getHeight (Item e1 ho1)) + ucast (getHeight (Item e2 ho2)))
                  (w - 40) (ucast (getHeight (Item e3 ho3))) e3) ho3]
          0)))"
proof -
  have items: "layout_items (x + 20) (y + 100) (w - 40) [Item e1 ho1, Item e2 ho2, Item e3 ho3] =
     Some [Item (Element_layout (x + 20) (y + 100) (w - 40) (ucast (getHeight (Item e1 ho1))) e1) ho1,
           Item (Element_layout (x + 20) (y + 100 + ucast (getHeight (Item e1 ho1))) (w - 40)
                  (ucast (getHeight (Item e2 ho2))) e2) ho2,
           Item (Element_layout (x + 20)
                  (y + 100 + ucast (getHeight (Item e1 ho1)) + ucast (getHeight (Item e2 ho2)))
                  (w - 40) (ucast (getHeight (Item e3 ho3))) e3) ho3]"
    by (simp only: layout_items_Item [OF assms(1)] layout_items_Item [OF assms(2)]
        layout_items_Item [OF assms(3)] layout_items.simps(1) option.case)
  have sub: "s32_sub (ucast (y + 100)) 0 = Some (ucast (y + 100))"
    using s32_sub_y [of 0 "y + 100"] by simp
  show ?thesis
    using items sub
    by (simp add: ucast_u16_u32_u16 del: getHeight.simps layout_items.simps)
qed

text \<open>
  C4, as stated: the first list item's bounds start at \<open>(40, 100)\<close>. They start at
  \<open>(20, 100)\<close>: the frame insets its content by 20 and the list adds no inset of
  its own.
\<close>

theorem C4_first_item_counterexample:
  "map_option m_root
     (updateGui \<lparr>FramebufferWidth = 1280, FramebufferHeight = 720\<rparr>
        (Some (setContent
           (Some (addItem (Item Element_new (Some 70)) (addItem (Item Element_new (Some 70))
              (addItem (Item Element_new (Some 70)) List_new))))
           (OverlayFrame_new [0x54, 0x69, 0x74, 0x6C, 0x65] [0x53, 0x75, 0x62])))
        (Gui_new (\<lambda>n. None)))
   = Some (Some
      (OverlayFrame
        \<lparr>m_x = 0, m_y = 0, m_width = 1280, m_height = 720, m_focused = False,
           m_isItem = False, m_parent = Null\<rparr>
        [0x54, 0x69, 0x74, 0x6C, 0x65] [0x53, 0x75, 0x62]
        (Some (List
          \<lparr>m_x = 20, m_y = 100, m_width = 1240, m_height = 570, m_focused = False,
             m_isItem = False, m_parent = Null\<rparr>
          [Item \<lparr>m_x = 20, m_y = 100, m_width = 1240, m_height = 70, m_focused = False,
                  m_isItem = False, m_parent = Null\<rparr> (Some 70),
           Item \<lparr>m_x = 20, m_y = 170, m_width = 1240, m_height = 70, m_focused = False,
                  m_isItem = False, m_parent = Null\<rparr> (Some 70),
           Item \<lparr>m_x = 20, m_y = 240, m_width = 1240, m_height = 70, m_focused = False,
                  m_isItem = False, m_parent = Null\<rparr> (Some 70)]
          0)))) \<and>
   getX (Item \<lparr>m_x = 20, m_y = 100, m_width = 1240, m_height = 70, m_focused = False,
                  m_isItem = False, m_parent = Null\<rparr> (Some 70)) \<noteq> 40"
  by (simp add: updateGui_def Gui_new_def setContent_def addItem_def List_new_def
      OverlayFrame_new_def Element_new_def Element_layout_def s32_sub_def s32_add_def getX_def)

text \<open>
  C4, amended. A screen whose \<open>createUI\<close> returns an \<open>OverlayFrame(title, subtitle)\<close>
  holding a \<open>List\<close> of three fixed-height items, on a framebuffer of 1280 by 720:
  the first \<open>updateGui\<close> lays the tree out at origin \<open>(0, 0)\<close>, the first item's
  bounds start at \<open>(20, 100)\<close>; drawing the screen is a background rectangle, the
  title by \<open>drawString\<close> at \<open>(20, 50)\<close> with font size 32, the subtitle at \<open>(20, 85)\<close>
  with font size 15, then the three items.
\<close>

theorem C4_frame_layout_draw:
  assumes "FramebufferWidth c = 1280" and "FramebufferHeight c = 720"
    and "sint (getHeight (Item e1 ho1)) < 2 ^ 31 - 65536"
    and "sint (getHeight (Item e2 ho2)) < 2 ^ 31 - 65536"
    and "sint (getHeight (Item e3 ho3)) < 2 ^ 31 - 65536"
  shows "\<exists>gui' fe le c1 c2 c3.
     updateGui c
       (Some (setContent
          (Some (addItem (Item e3 ho3) (addItem (Item e2 ho2) (addItem (Item e1 ho1) List_new))))
          (OverlayFrame_new title subtitle)))
       (Gui_new els) = Some gui' \<and>
     m_root gui' = Some (OverlayFrame fe title subtitle (Some (List le [c1, c2, c3] 0))) \<and>
     getX c1 = 20 \<and> getY c1 = 100 \<and>
     Gui_draw c itemDraw gui' =
       [DrawRect 0 0 1280 720 ColorFrameBackground,
        DrawString title False 20 50 32 ColorText,
        DrawString subtitle False 20 85 15 ColorDescription]
       @ itemDraw c1 @ itemDraw c2 @ itemDraw c3"
proof -
  let ?frame = "setContent
          (Some (addItem (Item e3 ho3) (addItem (Item e2 ho2) (addItem (Item e1 ho1) List_new))))
          (OverlayFrame_new title subtitle)"
  let ?fe0 = "Element_new\<lparr>m_isItem := False\<rparr>"
  have frame: "?frame = OverlayFrame ?fe0 title subtitle
       (Some (List Element_new [Item e1 ho1, Item e2 ho2, Item e3 ho3] 0))"
    by (simp add: setContent_def addItem_def List_new_def OverlayFrame_new_def)
  let ?c1 = "Item (Element_layout 20 100 1240 (ucast (getHeight (Item e1 ho1))) e1) ho1"
  let ?c2 = "Item (Element_layout 20 (100 + ucast (getHeight (Item e1 ho1))) 1240
                  (ucast (getHeight (Item e2 ho2))) e2) ho2"
  let ?c3 = "Item (Element_layout 20
                  (100 + ucast (getHeight (Item e1 ho1)) + ucast (getHeight (Item e2 ho2)))
                  1240 (ucast (getHeight (Item e3 ho3))) e3) ho3"
  let ?root = "OverlayFrame (Element_layout 0 0 1280 720 ?fe0) title subtitle
       (Some (List (Element_layout 20 100 1240 570 Element_new) [?c1, ?c2, ?c3] 0))"
  let ?gui = "(Gui_new els)\<lparr>m_root := Some ?root\<rparr>"
  have lay: "layout 0 0 1280 720 ?frame = Some ?root"
    unfolding frame using layout_frame_three_items [OF assms(3-5), of 0 0 1280 720 ?fe0 title subtitle Element_new]
    by simp
  have upd: "updateGui c (Some ?frame) (Gui_new els) = Some ?gui"
    using lay assms(1,2) by (simp add: updateGui_def Gui_new_def)
  have root: "m_root ?gui = Some ?root" by simp
  have pos: "getX ?c1 = 20" "getY ?c1 = 100"
    by (simp_all add: getX_def getY_def Element_layout_def)
  have drw: "Gui_draw c itemDraw ?gui =
       [DrawRect 0 0 1280 720 ColorFrameBackground,
        DrawString title False 20 50 32 ColorText,
        DrawString subtitle False 20 85 15 ColorDescription]
       @ itemDraw ?c1 @ itemDraw ?c2 @ itemDraw ?c3"
    using assms(1,2) by (simp add: Gui_draw_def)
  from upd root pos drw show ?thesis by blast
qed

theorem C4_frame_layout_draw_witness:
  "FramebufferWidth \<lparr>FramebufferWidth = 1280, FramebufferHeight = 720\<rparr> = 1280 \<and>
   FramebufferHeight \<lparr>FramebufferWidth = 1280, FramebufferHeight = 720\<rparr> = 720 \<and>
   sint (getHeight (Item Element_new (Some 70))) < 2 ^ 31 - 65536 \<and>
   (\<exists>gui' fe le c1 c2 c3.
     updateGui \<lparr>FramebufferWidth = 1280, FramebufferHeight = 720\<rparr>
       (Some (setContent
          (Some (addItem (Item Element_new (Some 70)) (addItem (Item Element_new (Some 70))
             (addItem (Item Element_new (Some 70)) List_new))))
          (OverlayFrame_new [0x54, 0x69, 0x74, 0x6C, 0x65] [0x53, 0x75, 0x62])))
       (Gui_new (\<lambda>n. None)) = Some gui' \<and>
     m_root gui' = Some (OverlayFrame fe [0x54, 0x69, 0x74, 0x6C, 0x65] [0x53, 0x75, 0x62]
        (Some (List le [c1, c2, c3] 0))) \<and>
     getX c1 = 20 \<and> getY c1 = 100 \<and>
     Gui_draw \<lparr>FramebufferWidth = 1280, FramebufferHeight = 720\<rparr> (\<lambda>el. []) gui' =
       [DrawRect 0 0 1280 720 ColorFrameBackground,
        DrawString [0x54, 0x69, 0x74, 0x6C, 0x65] False 20 50 32 ColorText,
        DrawString [0x53, 0x75, 0x62] False 20 85 15 ColorDescription])"
proof -
  let ?c = "\<lparr>FramebufferWidth = 1280, FramebufferHeight = 720\<rparr>"
  let ?it = "Item Element_new (Some 70)"
  have h1: "FramebufferWidth ?c = 1280" and h2: "FramebufferHeight ?c = 720" by simp_all
  have h3: "sint (getHeight ?it) < 2 ^ 31 - 65536" by simp
  from C4_frame_layout_draw [OF h1 h2 h3 h3 h3, of "[0x54, 0x69, 0x74, 0x6C, 0x65]" "[0x53, 0x75, 0x62]"
      "\<lambda>n. None" "\<lambda>el. []"]
  show ?thesis using h1 h2 h3 by simp
qed

section \<open>Properties of the glyph cache\<close>

lemma bit_glyph_key:
  "bit (glyph_key character monospace fontSize) n \<longleftrightarrow>
     (n < 32 \<and> bit fontSize n) \<or> (32 \<le> n \<and> n < 64 \<and> bit character (n - 32)) \<or> (monospace \<and> n = 63)"
proof -
  have 1: "bit (push_bit 63 (1 :: u64)) n \<longleftrightarrow> n = 63"
    by (auto simp only: bit_push_bit_iff bit_1_iff possible_bit_word len_of_numeral_defs)
  have 2: "bit (push_bit 32 (ucast character :: u64)) n \<longleftrightarrow> 32 \<le> n \<and> n < 64 \<and> bit character (n - 32)"
    by (auto simp: bit_push_bit_iff bit_ucast_iff dest: bit_imp_le_length)
  have 3: "bit (ucast fontSize :: u64) n \<longleftrightarrow> n < 32 \<and> bit fontSize n"
    by (auto simp: bit_ucast_iff dest: bit_imp_le_length)
  show ?thesis
    by (cases monospace) (simp_all only: glyph_key_def Let_def bit_or_iff 1 2 3 if_True if_False, auto)
qed

lemma bit31_small:
  assumes "unat (character :: u32) < 2 ^ 31"
  shows "\<not> bit character 31"
proof -
  have "take_bit 31 (unat character) = unat character"
    using assms by (simp add: take_bit_nat_eq_self)
  then have "bit (unat character) 31 = bit (take_bit 31 (unat character)) 31" by simp
  also have "\<dots> = False" by (simp add: bit_take_bit_iff)
  finally show ?thesis by (simp add: bit_unsigned_iff)
qed

lemma glyph_key_inj:
  assumes "unat c1 < 2 ^ 31" "unat c2 < 2 ^ 31"
  shows "glyph_key c1 m1 s1 = glyph_key c2 m2 s2 \<longleftrightarrow> c1 = c2 \<and> m1 = m2 \<and> s1 = s2"
proof
  assume eq: "glyph_key c1 m1 s1 = glyph_key c2 m2 s2"
  have b: "\<And>n. bit (glyph_key c1 m1 s1) n = bit (glyph_key c2 m2 s2) n" using eq by simp
  have n1: "\<not> bit c1 31" and n2: "\<not> bit c2 31" using assms by (simp_all add: bit31_small)
  have "s1 = s2"
  proof (rule bit_word_eqI)
    fix n assume "n < LENGTH(32)"
    then show "bit s1 n = bit s2 n" using b [of n] by (simp add: bit_glyph_key)
  qed
  moreover have "m1 = m2" using b [of 63] n1 n2 by (simp add: bit_glyph_key)
  moreover have "c1 = c2"
  proof (rule bit_word_eqI)
    fix n assume n: "n < LENGTH(32)"
    show "bit c1 n = bit c2 n"
    proof (cases "n = 31")
      case True then show ?thesis using n1 n2 by simp
    next
      case False
      then show ?thesis using n b [of "n + 32"] by (simp add: bit_glyph_key)
    qed
  qed
  ultimately show "c1 = c2 \<and> m1 = m2 \<and> s1 = s2" by simp
qed auto

lemma cache_ok_init: "cache_ok FontManager_init"
  by (simp add: cache_ok_def FontManager_init_def)

lemma getOrCreateGlyph_hit:
  "s_glyphCache fm (glyph_key ch ms sz) = Some p \<Longrightarrow>
     getOrCreateGlyph fnt ch ms sz fm = Some (p, fm)"
  by (simp add: getOrCreateGlyph_def)

lemma getOrCreateGlyph_result:
  assumes "getOrCreateGlyph fnt ch ms sz fm = Some (p, fm')"
  shows "s_glyphCache fm' (glyph_key ch ms sz) = Some p"
    and "s_glyphCache fm k = Some q \<Longrightarrow> s_glyphCache fm' k = Some q"
    and "glyph_at fm q = Some gl \<Longrightarrow> glyph_at fm' q = Some gl"
    and "s_glyphCache fm (glyph_key ch ms sz) = None \<Longrightarrow>
           p = length (glyphs fm) \<and> glyph_at fm' p = make_glyph fnt ch sz \<and>
           s_glyphCache fm' = (s_glyphCache fm)(glyph_key ch ms sz := Some p)"
    and "s_glyphCache fm (glyph_key ch ms sz) \<noteq> None \<Longrightarrow> fm' = fm"
  using assms
  by (auto simp: getOrCreateGlyph_def Let_def glyph_at_def nth_append
      split: option.splits if_splits)

lemma getOrCreateGlyph_cache_ok:
  assumes "getOrCreateGlyph fnt ch ms sz fm = Some (p, fm')" "cache_ok fm"
  shows "cache_ok fm'"
  using assms unfolding cache_ok_def getOrCreateGlyph_def Let_def
  by (auto split: option.splits if_splits) fastforce+

lemma getOrCreateGlyph_valid:
  assumes "getOrCreateGlyph fnt ch ms sz fm = Some (p, fm')" "cache_ok fm"
  shows "p < length (glyphs fm')"
  using getOrCreateGlyph_cache_ok [OF assms] getOrCreateGlyph_result(1) [OF assms(1)]
  by (auto simp: cache_ok_def)

lemma demo_glyph:
  "make_glyph demo_font ch 1 = Some \<lparr>glyphBmp = None, width = 0, height = 0, xOffset = 0,
     yOffset = 0, xAdvance = Finite 1024 (- 11), currFontSize = 1\<rparr>"
  by (simp add: make_glyph_def demo_font_def s32_sub_def f32_of_int_def f32_round_def nbits.simps Let_def)

text \<open>
  C8. In a consistent cache state and for code points below \<open>2 ^ 31\<close> (every
  Unicode code point, and everything \<open>decode_utf8\<close> returns): after a call for
  \<open>(character, monospace, fontSize)\<close> returned glyph \<open>p1\<close>, the same call returns
  \<open>p1\<close> again, also after a call for another triple, and the glyph object at \<open>p1\<close>
  stays what it was; a call for the same character with another \<open>monospace\<close> or
  \<open>fontSize\<close> returns a different glyph object. The key is injective on the
  triples.
\<close>

theorem C8_glyph_cache:
  assumes "cache_ok fm" and "unat character < 2 ^ 31" and "unat character' < 2 ^ 31"
    and "getOrCreateGlyph fnt character monospace fontSize fm = Some (p1, fm1)"
    and "getOrCreateGlyph fnt character monospace' fontSize' fm1 = Some (p2, fm2)"
  shows "getOrCreateGlyph fnt character monospace fontSize fm1 = Some (p1, fm1) \<and>
     getOrCreateGlyph fnt character monospace fontSize fm2 = Some (p1, fm2) \<and>
     glyph_at fm1 p1 \<noteq> None \<and> glyph_at fm2 p1 = glyph_at fm1 p1 \<and>
     (if monospace' = monospace \<and> fontSize' = fontSize then p2 = p1 \<and> fm2 = fm1
      else p2 \<noteq> p1 \<and>
           glyph_key character monospace' fontSize' \<noteq> glyph_key character monospace fontSize) \<and>
     (glyph_key character' monospace' fontSize' = glyph_key character monospace fontSize \<longleftrightarrow>
        character' = character \<and> monospace' = monospace \<and> fontSize' = fontSize)"
proof -
  let ?k1 = "glyph_key character monospace fontSize"
  let ?k2 = "glyph_key character monospace' fontSize'"
  note call1 = assms(4) and call2 = assms(5)
  have c1: "s_glyphCache fm1 ?k1 = Some p1" by (rule getOrCreateGlyph_result(1) [OF call1])
  have ok1: "cache_ok fm1" by (rule getOrCreateGlyph_cache_ok [OF call1 assms(1)])
  have ok2: "cache_ok fm2" by (rule getOrCreateGlyph_cache_ok [OF call2 ok1])
  have again: "getOrCreateGlyph fnt character monospace fontSize fm1 = Some (p1, fm1)"
    by (rule getOrCreateGlyph_hit [OF c1])
  have c1': "s_glyphCache fm2 ?k1 = Some p1" by (rule getOrCreateGlyph_result(2) [OF call2 c1])
  have later: "getOrCreateGlyph fnt character monospace fontSize fm2 = Some (p1, fm2)"
    by (rule getOrCreateGlyph_hit [OF c1'])
  have v1: "p1 < length (glyphs fm1)" by (rule getOrCreateGlyph_valid [OF call1 assms(1)])
  then obtain gl where gl: "glyph_at fm1 p1 = Some gl" by (simp add: glyph_at_def)
  have same: "glyph_at fm2 p1 = glyph_at fm1 p1"
    using getOrCreateGlyph_result(3) [OF call2 gl] gl by simp
  have c2: "s_glyphCache fm2 ?k2 = Some p2" by (rule getOrCreateGlyph_result(1) [OF call2])
  have branch: "if monospace' = monospace \<and> fontSize' = fontSize then p2 = p1 \<and> fm2 = fm1
      else p2 \<noteq> p1 \<and> ?k2 \<noteq> ?k1"
  proof (cases "monospace' = monospace \<and> fontSize' = fontSize")
    case True
    then show ?thesis using again call2 by simp
  next
    case False
    then have ne: "?k2 \<noteq> ?k1"
      using glyph_key_inj [OF assms(2) assms(2), of monospace' fontSize' monospace fontSize] by auto
    have "p2 \<noteq> p1"
    proof
      assume "p2 = p1"
      with c1' c2 ok2 have "?k2 = ?k1" unfolding cache_ok_def by blast
      with ne show False by simp
    qed
    with ne False show ?thesis by simp
  qed
  note inj = glyph_key_inj [OF assms(3) assms(2), of monospace' fontSize' monospace fontSize]
  from again later gl same branch inj show ?thesis by simp
qed

theorem C8_glyph_cache_witness:
  "cache_ok FontManager_init \<and> unat (65 :: u32) < 2 ^ 31 \<and>
   (\<exists>fm1 fm2.
      getOrCreateGlyph demo_font 65 False 1 FontManager_init = Some (0, fm1) \<and>
      getOrCreateGlyph demo_font 65 True 1 fm1 = Some (1, fm2) \<and>
      getOrCreateGlyph demo_font 65 False 1 fm1 = Some (0, fm1) \<and>
      getOrCreateGlyph demo_font 65 False 1 fm2 = Some (0, fm2) \<and>
      glyph_key 65 True 1 \<noteq> glyph_key 65 False 1)"
proof -
  have h1: "cache_ok FontManager_init" by (rule cache_ok_init)
  have h2: "unat (65 :: u32) < 2 ^ 31" by simp
  obtain fm1 where call1: "getOrCreateGlyph demo_font 65 False 1 FontManager_init = Some (0, fm1)"
    by (simp add: getOrCreateGlyph_def demo_glyph FontManager_init_def)
  have miss: "s_glyphCache fm1 (glyph_key 65 True 1) = None" and len: "length (glyphs fm1) = 1"
    using call1
    by (auto simp: getOrCreateGlyph_def demo_glyph FontManager_init_def glyph_key_def)
  obtain fm2 where call2: "getOrCreateGlyph demo_font 65 True 1 fm1 = Some (1, fm2)"
    using miss len by (simp add: getOrCreateGlyph_def demo_glyph)
  from C8_glyph_cache [OF h1 h2 h2 call1 call2] h1 h2 call1 call2
  show ?thesis by auto
qed

section \<open>Properties of the text measurement\<close>

lemma u8_no_bit31: "bit (w :: u8) 31 \<Longrightarrow> False"
  using bit_imp_le_length [of w 31] by simp

lemma decode_utf8_bit31: "decode_utf8 inp = Some (cp, len) \<Longrightarrow> \<not> bit cp 31"
  by (auto simp: decode_utf8_def Let_def bit_simps split: if_splits dest: u8_no_bit31)

lemma decode_all_bit31: "cp \<in> set (decode_all p) \<Longrightarrow> \<not> bit cp 31"
proof (induction p rule: decode_all.induct)
  case (1 p)
  show ?case
  proof (cases "byte_at p 0 = 0")
    case True
    then show ?thesis using "1.prems" by (simp add: decode_all.simps [of p])
  next
    case False
    show ?thesis
    proof (cases "decode_utf8 p")
      case None
      then show ?thesis using False "1.prems" by (simp add: decode_all.simps [of p])
    next
      case (Some r)
      obtain c len where r: "r = (c, len)" by (cases r)
      have "cp = c \<or> cp \<in> set (decode_all (drop len p))"
        using "1.prems" False Some r by (simp add: decode_all.simps [of p])
      then show ?thesis
        using decode_utf8_bit31 [of p c len] Some r "1.IH" [OF False Some _ , of c len] r
        by auto
    qed
  qed
qed

lemma glyph_key_inj_bit:
  assumes "\<not> bit c1 31" "\<not> bit c2 31"
  shows "glyph_key c1 m1 s1 = glyph_key c2 m2 s2 \<longleftrightarrow> c1 = c2 \<and> m1 = m2 \<and> s1 = s2"
proof
  assume eq: "glyph_key c1 m1 s1 = glyph_key c2 m2 s2"
  have b: "\<And>n. bit (glyph_key c1 m1 s1) n = bit (glyph_key c2 m2 s2) n" using eq by simp
  have "s1 = s2"
  proof (rule bit_word_eqI)
    fix n assume "n < LENGTH(32)"
    then show "bit s1 n = bit s2 n" using b [of n] by (simp add: bit_glyph_key)
  qed
  moreover have "m1 = m2" using b [of 63] assms by (simp add: bit_glyph_key)
  moreover have "c1 = c2"
  proof (rule bit_word_eqI)
    fix n assume n: "n < LENGTH(32)"
    show "bit c1 n = bit c2 n"
    proof (cases "n = 31")
      case True then show ?thesis using assms by simp
    next
      case False
      then show ?thesis using n b [of "n + 32"] by (simp add: bit_glyph_key)
    qed
  qed
  ultimately show "c1 = c2 \<and> m1 = m2 \<and> s1 = s2" by simp
qed auto

lemma glyph_for_stable:
  assumes ok: "cache_ok fm"
    and call: "getOrCreateGlyph fnt cp ms sz fm = Some (gp, fm')"
    and b: "\<not> bit cp 31" and b': "\<not> bit cp' 31"
  shows "glyph_for fnt fm' ms sz cp' = glyph_for fnt fm ms sz cp'"
proof (cases "s_glyphCache fm (glyph_key cp' ms sz)")
  case (Some q)
  have q: "q < length (glyphs fm)" using ok Some by (auto simp: cache_ok_def)
  then have "glyph_at fm q = Some (glyphs fm ! q)" by (simp add: glyph_at_def)
  from getOrCreateGlyph_result(3) [OF call this]
  have "glyph_at fm' q = glyph_at fm q" using q by (simp add: glyph_at_def)
  moreover have "s_glyphCache fm' (glyph_key cp' ms sz) = Some q"
    by (rule getOrCreateGlyph_result(2) [OF call Some])
  ultimately show ?thesis
    using Some by (simp add: glyph_for_def getOrCreateGlyph_hit)
next
  case None
  show ?thesis
  proof (cases "cp' = cp")
    case True
    have "s_glyphCache fm (glyph_key cp ms sz) = None" using None True by simp
    from getOrCreateGlyph_result(4) [OF call this]
    have new: "gp = length (glyphs fm)" "glyph_at fm' gp = make_glyph fnt cp sz" by blast+
    have hit: "s_glyphCache fm' (glyph_key cp ms sz) = Some gp"
      by (rule getOrCreateGlyph_result(1) [OF call])
    have "glyph_for fnt fm' ms sz cp = glyph_at fm' gp"
      by (simp add: glyph_for_def getOrCreateGlyph_hit [OF hit])
    moreover have "glyph_for fnt fm ms sz cp = glyph_at fm' gp"
      using call by (simp add: glyph_for_def)
    ultimately show ?thesis using True by simp
  next
    case False
    have miss: "s_glyphCache fm (glyph_key cp ms sz) = None \<or> fm' = fm"
      using getOrCreateGlyph_result(5) [OF call] by blast
    show ?thesis
    proof (cases "fm' = fm")
      case True then show ?thesis by simp
    next
      case neq: False
      with miss have m: "s_glyphCache fm (glyph_key cp ms sz) = None" by simp
      from getOrCreateGlyph_result(4) [OF call m]
      have upd: "s_glyphCache fm' = (s_glyphCache fm)(glyph_key cp ms sz := Some gp)"
        and gp: "gp = length (glyphs fm)" by simp_all
      have kne: "glyph_key cp' ms sz \<noteq> glyph_key cp ms sz"
        using glyph_key_inj_bit [OF b' b, of ms sz ms sz] False by simp
      then have miss': "s_glyphCache fm' (glyph_key cp' ms sz) = None"
        using upd None by simp
      have len: "length (glyphs fm') = Suc (length (glyphs fm))" and pre: "\<And>i. i < length (glyphs fm) \<Longrightarrow> glyphs fm' ! i = glyphs fm ! i"
        using call m by (auto simp: getOrCreateGlyph_def Let_def nth_append split: option.splits)
      show ?thesis
        using None miss' len
        by (auto simp: glyph_for_def getOrCreateGlyph_def Let_def glyph_at_def nth_append
            split: option.splits)
    qed
  qed
qed

lemma gtd_cps_cong:
  "(\<And>cp. cp \<in> set cps \<Longrightarrow> adv cp = adv' cp) \<Longrightarrow> gtd_cps adv sz cps st = gtd_cps adv' sz cps st"
proof (induction cps arbitrary: st)
  case Nil
  then show ?case by simp
next
  case (Cons cp cps)
  obtain wd ht mw where st: "st = (wd, ht, mw)" by (cases st)
  have a: "add_advance adv cp = add_advance adv' cp"
    using Cons.prems [of cp] by (simp add: add_advance_def fun_eq_iff)
  have ih: "\<And>st'. gtd_cps adv sz cps st' = gtd_cps adv' sz cps st'"
    using Cons.IH Cons.prems by simp
  show ?case unfolding st by (simp add: a ih split: option.splits)
qed

lemma split_lines_nonempty: "split_lines cps \<noteq> []"
  by (induction cps) (auto split: list.splits)

lemma widths_from_nonempty: "widths_from adv wd cps = Some ws \<Longrightarrow> ws \<noteq> []"
  by (induction cps arbitrary: wd ws) (auto split: if_splits option.splits)

lemma widths_from_lines:
  "widths_from adv wd cps =
     those (fold_opt (add_advance adv) (hd (split_lines cps)) wd
            # map (line_width adv) (tl (split_lines cps)))"
proof (induction cps arbitrary: wd)
  case Nil
  then show ?case by simp
next
  case (Cons cp cps)
  obtain l ls where sp: "split_lines cps = l # ls"
    using split_lines_nonempty [of cps] by (cases "split_lines cps") auto
  show ?case
  proof (cases "cp = 10")
    case True
    have "widths_from adv 0 cps = those (map (line_width adv) (split_lines cps))"
      using Cons.IH [of 0] sp by (simp add: line_width_def [abs_def])
    then show ?thesis using True by simp
  next
    case False
    then show ?thesis using Cons.IH sp by (simp split: option.splits)
  qed
qed

lemma widths_from_line_widths: "widths_from adv 0 cps = line_widths adv cps"
proof -
  obtain l ls where sp: "split_lines cps = l # ls"
    using split_lines_nonempty [of cps] by (cases "split_lines cps") auto
  show ?thesis by (simp add: widths_from_lines line_widths_def line_width_def [abs_def] sp)
qed

lemma gtd_cps_widths:
  "gtd_cps adv sz cps (wd, ht, mw) =
     map_option (\<lambda>ws. (last ws, ht + sz * of_nat (count_list cps 10), fold max (butlast ws) mw))
       (widths_from adv wd cps)"
proof (induction cps arbitrary: wd ht mw)
  case Nil
  then show ?case by simp
next
  case (Cons cp cps)
  show ?case
  proof (cases "cp = 10")
    case True
    show ?thesis
    proof (cases "widths_from adv 0 cps")
      case None
      then show ?thesis using True Cons.IH by simp
    next
      case (Some ws)
      then have ne: "ws \<noteq> []" by (rule widths_from_nonempty)
      have mx: "(if mw < wd then wd else mw) = max wd mw" by (auto simp: max_def)
      show ?thesis using True Some ne Cons.IH
        by (simp add: mx algebra_simps)
    qed
  next
    case False
    then show ?thesis using Cons.IH by (simp split: option.splits)
  qed
qed

lemma fold_max_last:
  assumes "ws \<noteq> []"
  shows "(if fold max (butlast ws) (0 :: u32) < last ws then last ws else fold max (butlast ws) 0)
         = fold max ws 0"
proof -
  have "fold max ws (0 :: u32) = fold max (butlast ws @ [last ws]) 0" using assms by simp
  also have "\<dots> = max (last ws) (fold max (butlast ws) 0)" by (simp only: fold_append) simp
  finally show ?thesis by (auto simp: max_def)
qed

lemma gtd_loop_cps:
  assumes "cache_ok fm"
  shows "map_option (\<lambda>(wd', ht', mw', fm'). (wd', ht', mw')) (gtd_loop fnt ms sz p (wd, ht, mw, fm))
         = gtd_cps (advance_of fnt fm ms sz) sz (decode_all p) (wd, ht, mw)"
  using assms
proof (induction fnt ms sz p "(wd, ht, mw, fm)" arbitrary: wd ht mw fm rule: gtd_loop.induct)
  case (1 fnt ms sz p wd ht mw fm)
  show ?case
  proof (cases "byte_at p 0 = 0")
    case True
    then show ?thesis
      by (simp add: gtd_loop.simps [of _ _ _ p] decode_all.simps [of p])
  next
    case nz: False
    show ?thesis
    proof (cases "decode_utf8 p")
      case None
      then show ?thesis using nz
        by (simp add: gtd_loop.simps [of _ _ _ p] decode_all.simps [of p])
    next
      case (Some r)
      obtain cp len where r: "r = (cp, len)" by (cases r)
      have dec: "decode_all p = cp # decode_all (drop len p)"
        using nz Some r by (simp add: decode_all.simps [of p])
      show ?thesis
      proof (cases "cp = 10")
        case True
        have "gtd_loop fnt ms sz p (wd, ht, mw, fm) =
              gtd_loop fnt ms sz (drop len p) (0, ht + sz, (if mw < wd then wd else mw), fm)"
          using nz Some r True by (simp add: gtd_loop.simps [of _ _ _ p])
        then show ?thesis
          using "1.hyps"(1) [OF nz Some r [symmetric] True "1.prems"] dec True by simp
      next
        case nl: False
        show ?thesis
        proof (cases "getOrCreateGlyph fnt cp ms sz fm")
          case None
          then have "advance_of fnt fm ms sz cp = None"
            by (simp add: advance_of_def glyph_for_def)
          then show ?thesis using nz Some r nl None dec
            by (simp add: gtd_loop.simps [of _ _ _ p] add_advance_def)
        next
          case call: (Some r2)
          obtain gp fm' where r2: "r2 = (gp, fm')" by (cases r2)
          have call': "getOrCreateGlyph fnt cp ms sz fm = Some (gp, fm')" using call r2 by simp
          have ok': "cache_ok fm'" by (rule getOrCreateGlyph_cache_ok [OF call' "1.prems"])
          have "gp < length (glyphs fm')" by (rule getOrCreateGlyph_valid [OF call' "1.prems"])
          then obtain glyph where gl: "glyph_at fm' gp = Some glyph" by (simp add: glyph_at_def)
          have adv: "advance_of fnt fm ms sz cp = Some (xAdvance glyph)"
            using call' gl by (simp add: advance_of_def glyph_for_def)
          have b: "\<not> bit cp 31" by (rule decode_utf8_bit31 [of p cp len]) (simp add: Some r)
          have stable: "gtd_cps (advance_of fnt fm' ms sz) sz (decode_all (drop len p)) st
                = gtd_cps (advance_of fnt fm ms sz) sz (decode_all (drop len p)) st" for st
            by (rule gtd_cps_cong)
               (simp add: advance_of_def glyph_for_stable [OF "1.prems" call' b decode_all_bit31])
          show ?thesis
          proof (cases "u32_add_float wd (xAdvance glyph)")
            case None
            then show ?thesis using nz Some r nl call' gl adv dec
              by (simp add: gtd_loop.simps [of _ _ _ p] add_advance_def)
          next
            case add: (Some wd')
            have "gtd_loop fnt ms sz p (wd, ht, mw, fm) =
                  gtd_loop fnt ms sz (drop len p) (wd', ht, mw, fm')"
              using nz Some r nl call' gl add by (simp add: gtd_loop.simps [of _ _ _ p])
            then show ?thesis
              using "1.hyps"(2) [OF nz Some r [symmetric] nl call r2 [symmetric] gl add ok']
                stable dec nl adv add
              by (simp add: add_advance_def)
          qed
        qed
      qed
    qed
  qed
qed

lemma f32_to_s32_Some:
  "f32_to_s32 v = Some w \<Longrightarrow>
     \<exists>k. f32_trunc v = Some k \<and> - (2 ^ 31) \<le> k \<and> k < 2 ^ 31 \<and> w = word_of_int k"
  unfolding f32_to_s32_def by (cases "f32_trunc v") (simp_all split: if_splits)

lemma f32_to_u32_Some:
  "f32_to_u32 v = Some w \<Longrightarrow>
     \<exists>k. f32_trunc v = Some k \<and> 0 \<le> k \<and> k < 2 ^ 32 \<and> w = word_of_int k"
  unfolding f32_to_u32_def by (cases "f32_trunc v") (simp_all split: if_splits)

lemma add_float_agree:
  assumes "s32_add_float cx v = Some cx'" "u32_add_float wd v = Some wd'" "sint cx = uint wd"
  shows "sint cx' = uint wd'"
proof -
  let ?f = "f32_add (f32_of_int (uint wd)) v"
  have "f32_to_s32 ?f = Some cx'" using assms(1,3) by (simp add: s32_add_float_def)
  from f32_to_s32_Some [OF this] obtain k where
    k: "f32_trunc ?f = Some k" and s: "- (2 ^ 31) \<le> k" "k < 2 ^ 31" "cx' = word_of_int k"
    by blast
  have "f32_to_u32 ?f = Some wd'" using assms(2) by (simp add: u32_add_float_def)
  from f32_to_u32_Some [OF this] k have u: "0 \<le> k" "k < 2 ^ 32" "wd' = word_of_int k"
    by auto
  have "signed_take_bit 31 k = k"
    using s(1,2) by (intro signed_take_bit_int_eq_self) simp_all
  then have "sint (word_of_int k :: u32) = k"
    by (simp add: sint_sbintrunc')
  moreover have "take_bit 32 k = k"
    using u(1,2) by (intro take_bit_int_eq_self) simp_all
  then have "uint (word_of_int k :: u32) = k"
    by (simp add: uint_word_of_int_eq)
  ultimately show ?thesis using s(3) u(3) by simp
qed

lemma cursor_agree:
  assumes "drawString_loop c fnt ms 0 sz color p (cx, y, fb, fm) = Some (cx', y', fb', fm1)"
    and "gtd_loop fnt ms sz p (wd, ht, mw, fm) = Some (wd', ht', mw', fm2)"
    and "sint cx = uint wd"
  shows "sint cx' = uint wd' \<and> y' - y = ht' - ht \<and> fm1 = fm2"
  using assms
proof (induction fnt ms sz p "(wd, ht, mw, fm)" arbitrary: wd ht mw fm cx y fb
    rule: gtd_loop.induct)
  case (1 fnt ms sz p wd ht mw fm)
  note ds = "1.prems"(1) and gt = "1.prems"(2) and eq = "1.prems"(3)
  show ?case
  proof (cases "byte_at p 0 = 0")
    case True
    then show ?thesis using ds gt eq
      by (simp add: gtd_loop.simps [of _ _ _ p] drawString_loop.simps [of _ _ _ _ _ _ p])
  next
    case nz: False
    show ?thesis
    proof (cases "decode_utf8 p")
      case None
      then show ?thesis using nz ds gt eq
        by (simp add: gtd_loop.simps [of _ _ _ p] drawString_loop.simps [of _ _ _ _ _ _ p])
    next
      case (Some r)
      obtain cp len where r: "r = (cp, len)" by (cases r)
      show ?thesis
      proof (cases "cp = 10")
        case True
        have ds': "drawString_loop c fnt ms 0 sz color (drop len p) (0, y + sz, fb, fm)
                   = Some (cx', y', fb', fm1)"
          using nz Some r True ds by (simp add: drawString_loop.simps [of _ _ _ _ _ _ p])
        have gt': "gtd_loop fnt ms sz (drop len p) (0, ht + sz, (if mw < wd then wd else mw), fm)
                   = Some (wd', ht', mw', fm2)"
          using nz Some r True gt by (simp add: gtd_loop.simps [of _ _ _ p])
        from "1.hyps"(1) [OF nz Some r [symmetric] True ds' gt']
        show ?thesis by (simp add: algebra_simps)
      next
        case nl: False
        from gt nz Some r nl obtain gp fm' glyph wd1 where
          call: "getOrCreateGlyph fnt cp ms sz fm = Some (gp, fm')" and
          gl: "glyph_at fm' gp = Some glyph" and
          add: "u32_add_float wd (xAdvance glyph) = Some wd1" and
          gt': "gtd_loop fnt ms sz (drop len p) (wd1, ht, mw, fm') = Some (wd', ht', mw', fm2)"
          by (auto simp: gtd_loop.simps [of _ _ _ p] split: option.splits)
        from ds nz Some r nl call gl obtain fb1 cx1 where
          sadd: "s32_add_float cx (xAdvance glyph) = Some cx1" and
          ds': "drawString_loop c fnt ms 0 sz color (drop len p) (cx1, y, fb1, fm')
                = Some (cx', y', fb', fm1)"
          by (auto simp: drawString_loop.simps [of _ _ _ _ _ _ p] split: option.splits)
        have eq1: "sint cx1 = uint wd1" by (rule add_float_agree [OF sadd add eq])
        from "1.hyps"(2) [OF nz Some r [symmetric] nl call refl gl add ds' gt' eq1]
        show ?thesis .
      qed
    qed
  qed
qed

lemma getTextDimensions_spec:
  assumes "cache_ok fm"
  shows "map_option fst (getTextDimensions fnt text ms sz fm)
         = spec_dimensions (advance_of fnt fm ms sz) sz (decode_all text)"
proof -
  let ?adv = "advance_of fnt fm ms sz" and ?cps = "decode_all text"
  have loop: "map_option (\<lambda>(wd', ht', mw', fm'). (wd', ht', mw')) (gtd_loop fnt ms sz text (0, sz, 0, fm))
        = map_option (\<lambda>ws. (last ws, sz + sz * of_nat (count_list ?cps 10), fold max (butlast ws) 0))
            (line_widths ?adv ?cps)"
    by (simp only: gtd_loop_cps [OF assms] gtd_cps_widths widths_from_line_widths)
  show ?thesis
  proof (cases "line_widths ?adv ?cps")
    case None
    then have "gtd_loop fnt ms sz text (0, sz, 0, fm) = None" using loop by simp
    then show ?thesis using None by (simp add: getTextDimensions_def spec_dimensions_def)
  next
    case (Some ws)
    then have ne: "ws \<noteq> []"
      using widths_from_nonempty [of ?adv 0 ?cps ws] by (simp add: widths_from_line_widths)
    from loop Some obtain fm' where
      "gtd_loop fnt ms sz text (0, sz, 0, fm) =
         Some (last ws, sz + sz * of_nat (count_list ?cps 10), fold max (butlast ws) 0, fm')"
      by (auto split: prod.splits)
    then show ?thesis using Some fold_max_last [OF ne]
      by (simp add: getTextDimensions_def spec_dimensions_def)
  qed
qed

text \<open>
  C3, as stated: the measured width agrees with the horizontal displacement of
  \<open>drawString\<close>'s cursor on each line, wherever \<open>drawString\<close> starts. With a glyph
  of advance 0.5 (the test font at size 1): \<open>getTextDimensions\<close> measures the
  width 0, since \<open>0 + 0.5\<close> truncates to 0, while \<open>drawString\<close> from \<open>x = -1\<close> moves
  the cursor to 0, a displacement of 1, since \<open>-1 + 0.5\<close> truncates towards zero.
  A start to the right of 0 can differ too: with a glyph that advances just under
  one pixel (the second font at size 1) the measured width is again 0, while from
  \<open>x = 1000\<close> the \<open>float\<close> sum of 1000 and the advance rounds to 1001 and the cursor
  moves by 1.
\<close>

theorem C3_cursor_displacement_counterexample:
  "map_option fst (getTextDimensions demo_font [0x20] False 1 FontManager_init) = Some (0, 1) \<and>
   map_option fst (drawString_loop \<lparr>FramebufferWidth = 0, FramebufferHeight = 0\<rparr> demo_font
          False (- 1) 1 ColorText [0x20] (- 1, 0, [], FontManager_init)) = Some 0 \<and>
   (0 :: s32) - (- 1) \<noteq> 0 \<and>
   map_option fst (getTextDimensions wide_font [0x20] False 1 FontManager_init) = Some (0, 1) \<and>
   map_option fst (drawString_loop \<lparr>FramebufferWidth = 0, FramebufferHeight = 0\<rparr> wide_font
          False 1000 1 ColorText [0x20] (1000, 0, [], FontManager_init)) = Some 1001 \<and>
   (1001 :: s32) - 1000 \<noteq> 0"
proof -
  have "map_option fst (getTextDimensions demo_font [0x20] False 1 FontManager_init) = Some (0, 1)"
    by code_simp
  moreover have "map_option fst (drawString_loop \<lparr>FramebufferWidth = 0, FramebufferHeight = 0\<rparr>
          demo_font False (- 1) 1 ColorText [0x20] (- 1, 0, [], FontManager_init)) = Some 0"
    by code_simp
  moreover have "map_option fst (getTextDimensions wide_font [0x20] False 1 FontManager_init)
      = Some (0, 1)"
    by code_simp
  moreover have "map_option fst (drawString_loop \<lparr>FramebufferWidth = 0, FramebufferHeight = 0\<rparr>
          wide_font False 1000 1 ColorText [0x20] (1000, 0, [], FontManager_init)) = Some 1001"
    by code_simp
  ultimately show ?thesis by simp
qed

text \<open>
  C3, amended. In a consistent cache state, for every text, monospace flag and font
  size: \<open>getTextDimensions\<close> returns exactly when the specification's measurement
  is defined, and then its height is \<open>size + size * n\<close> in \<open>u32\<close>, \<open>n\<close> the number of
  newline code points among those decoded (up to the first zero byte or invalid
  sequence), and its width is the largest of the line widths, each summed from 0
  with the per-glyph truncation. When \<open>drawString\<close> draws the same text from \<open>x = 0\<close>
  in the same font state and returns, its cursor ends at \<open>x\<close> equal to the width of
  the last line and at \<open>y\<close> advanced by the font size per newline; since this holds
  for every text, the cursor at the end of each line is that line's width.
\<close>

theorem C3_text_dimensions:
  assumes "cache_ok fm"
  shows "map_option fst (getTextDimensions fnt text ms sz fm)
           = spec_dimensions (advance_of fnt fm ms sz) sz (decode_all text) \<and>
     (\<forall>ws cx cy fb' fm'.
        line_widths (advance_of fnt fm ms sz) (decode_all text) = Some ws \<and>
        drawString_loop c fnt ms 0 sz color text (0, y, fb, fm) = Some (cx, cy, fb', fm') \<longrightarrow>
        sint cx = uint (last ws) \<and> cy = y + sz * of_nat (count_list (decode_all text) 10))"
proof -
  let ?adv = "advance_of fnt fm ms sz" and ?cps = "decode_all text"
  have cursor: "sint cx = uint (last ws) \<and> cy = y + sz * of_nat (count_list ?cps 10)"
    if ws: "line_widths ?adv ?cps = Some ws"
      and ds: "drawString_loop c fnt ms 0 sz color text (0, y, fb, fm) = Some (cx, cy, fb', fm')"
    for ws cx cy fb' fm'
  proof -
    have "map_option (\<lambda>(wd', ht', mw', fm'). (wd', ht', mw')) (gtd_loop fnt ms sz text (0, sz, 0, fm))
        = Some (last ws, sz + sz * of_nat (count_list ?cps 10), fold max (butlast ws) 0)"
      using ws by (simp only: gtd_loop_cps [OF assms] gtd_cps_widths widths_from_line_widths) simp
    then obtain fm2 where gt: "gtd_loop fnt ms sz text (0, sz, 0, fm) =
         Some (last ws, sz + sz * of_nat (count_list ?cps 10), fold max (butlast ws) 0, fm2)"
      by (auto split: prod.splits)
    from cursor_agree [OF ds gt] show ?thesis by (simp add: algebra_simps)
  qed
  from getTextDimensions_spec [OF assms] cursor show ?thesis by blast
qed

theorem C3_text_dimensions_witness:
  "cache_ok FontManager_init \<and>
   map_option fst (getTextDimensions demo_font [65, 66, 10, 67] False 3 FontManager_init)
     = Some (2, 6) \<and>
   line_widths (advance_of demo_font FontManager_init False 3) (decode_all [65, 66, 10, 67])
     = Some [2, 1] \<and>
   map_option (\<lambda>(cx, cy, fb', fm'). (cx, cy))
     (drawString_loop \<lparr>FramebufferWidth = 0, FramebufferHeight = 0\<rparr> demo_font False 0 3
        ColorText [65, 66, 10, 67] (0, 5, [], FontManager_init)) = Some (1, 8)"
proof -
  note inst = C3_text_dimensions [OF cache_ok_init, of demo_font "[65, 66, 10, 67]" False 3
      "\<lparr>FramebufferWidth = 0, FramebufferHeight = 0\<rparr>" ColorText 5 "[]"]
  have sp: "spec_dimensions (advance_of demo_font FontManager_init False 3) 3
       (decode_all [65, 66, 10, 67]) = Some (2, 6)"
    by code_simp
  have lw: "line_widths (advance_of demo_font FontManager_init False 3) (decode_all [65, 66, 10, 67])
     = Some [2, 1]"
    by code_simp
  have ds: "map_option (\<lambda>(cx, cy, fb', fm'). (cx, cy))
     (drawString_loop \<lparr>FramebufferWidth = 0, FramebufferHeight = 0\<rparr> demo_font False 0 3
        ColorText [65, 66, 10, 67] (0, 5, [], FontManager_init)) = Some (1, 8)"
    by code_simp
  from inst sp have "map_option fst (getTextDimensions demo_font [65, 66, 10, 67] False 3 FontManager_init)
     = Some (2, 6)" by simp
  with cache_ok_init lw ds show ?thesis by simp
qed

end
